theory Spec2Isabelle
  imports Main "HOL-Library.Multiset" "HOL-Library.Sublist"
begin

section \<open>Text edits and their application (core canonicalizer)\<close>

text \<open>
  A JavaScript string is modelled as \<open>string\<close>, a list of code units. An offset is a
  JavaScript number holding an integer, modelled as \<open>int\<close> (the values \<open>NaN\<close>,
  infinities and fractions are outside the model). A record field or an argument whose
  name in the source is taken in this theory carries a prefix or a suffix
  (\<open>argRootDir\<close>, \<open>helpFlag\<close>, \<open>diagRange\<close>, \<open>content\<close> for the text of a document).
\<close>

record TextEdit =
  startOffset :: int
  endOffset :: int
  replacement :: string
  original :: string

text \<open>
  \<open>String.prototype.slice\<close>: a negative index counts from the end of the string, every
  index is clamped into \<open>[0, length]\<close>, and an empty range gives the empty string.
\<close>

definition relativeIndex :: "nat \<Rightarrow> int \<Rightarrow> nat" where
  "relativeIndex len i = (if i < 0 then nat (max (int len + i) 0) else min (nat i) len)"

definition slice :: "string \<Rightarrow> int \<Rightarrow> int \<Rightarrow> string" where
  "slice s start stop =
     (let from = relativeIndex (length s) start; to = relativeIndex (length s) stop
      in take (to - from) (drop from s))"

definition sliceFrom :: "string \<Rightarrow> int \<Rightarrow> string" where
  "sliceFrom s start = drop (relativeIndex (length s) start) s"

text \<open>
  \<open>[...edits].sort((a, b) => b.startOffset - a.startOffset)\<close>: a stable sort by
  descending \<open>startOffset\<close>.
\<close>

definition sortByStartDesc :: "TextEdit list \<Rightarrow> TextEdit list" where
  "sortByStartDesc edits = sort_key (\<lambda>e. - startOffset e) edits"

text \<open>
  The loop body of \<open>applyTextEdits\<close> on the pair of mutable variables
  \<open>(output, lastStart)\<close>; \<open>None\<close> stands for \<open>Number.POSITIVE_INFINITY\<close>.
\<close>

definition splice :: "string \<Rightarrow> TextEdit \<Rightarrow> string" where
  "splice output edit =
     slice output 0 (startOffset edit) @ replacement edit @ sliceFrom output (endOffset edit)"

definition exceeds :: "int \<Rightarrow> int option \<Rightarrow> bool" where
  "exceeds x lastStart = (case lastStart of None \<Rightarrow> False | Some l \<Rightarrow> x > l)"

definition applyStep :: "string \<times> int option \<Rightarrow> TextEdit \<Rightarrow> string \<times> int option" where
  "applyStep st edit =
     (if exceeds (endOffset edit) (snd st) then st
      else (splice (fst st) edit, Some (startOffset edit)))"

definition applyTextEdits :: "string \<Rightarrow> TextEdit list \<Rightarrow> string" where
  "applyTextEdits text edits =
     (if length edits = 0 then text
      else fst (foldl applyStep (text, None) (sortByStartDesc edits)))"

text \<open>
  The edits that the loop really splices, as a function of the value of \<open>lastStart\<close>
  on entry and of the edits still to be visited.
\<close>

fun appliedEdits :: "int option \<Rightarrow> TextEdit list \<Rightarrow> TextEdit list" where
  "appliedEdits lastStart [] = []"
| "appliedEdits lastStart (e # es) =
     (if exceeds (endOffset e) lastStart then appliedEdits lastStart es
      else e # appliedEdits (Some (startOffset e)) es)"

definition validEdit :: "TextEdit \<Rightarrow> bool" where
  "validEdit e = (startOffset e < endOffset e)"

definition editsDisjoint :: "TextEdit \<Rightarrow> TextEdit \<Rightarrow> bool" where
  "editsDisjoint a b = (endOffset a \<le> startOffset b \<or> endOffset b \<le> startOffset a)"

fun nonOverlapping :: "TextEdit list \<Rightarrow> bool" where
  "nonOverlapping [] = True"
| "nonOverlapping (e # es) = (list_all (editsDisjoint e) es \<and> nonOverlapping es)"

text \<open>
  The text with every range replaced at once, for edits listed by ascending offset: the
  pieces of the text outside the ranges, with the replacements in between; \<open>pos\<close> is
  the offset up to which the text has been consumed.
\<close>

fun replaceRanges :: "string \<Rightarrow> nat \<Rightarrow> TextEdit list \<Rightarrow> string" where
  "replaceRanges text pos [] = drop pos text"
| "replaceRanges text pos (e # es) =
     take (nat (startOffset e) - pos) (drop pos text) @ replacement e
       @ replaceRanges text (nat (endOffset e)) es"

definition inRange :: "string \<Rightarrow> TextEdit \<Rightarrow> bool" where
  "inRange text e = (0 \<le> startOffset e \<and> endOffset e \<le> int (length text))"

subsection \<open>De-duplication of edits\<close>

text \<open>
  The key of an edit is the template literal \<open>`${edit.startOffset}:${edit.endOffset}`\<close>.
  A number holding an integer below \<open>10^21\<close> in magnitude prints in plain decimal, with a
  leading minus sign when negative.
\<close>

definition digitChar :: "nat \<Rightarrow> char" where
  "digitChar d = ''0123456789'' ! d"

fun natToString :: "nat \<Rightarrow> string" where
  "natToString n =
     (if n < 10 then [digitChar n] else natToString (n div 10) @ [digitChar (n mod 10)])"

declare natToString.simps [simp del]

definition numberToString :: "int \<Rightarrow> string" where
  "numberToString i =
     (if i < 0 then CHR ''-'' # natToString (nat (- i)) else natToString (nat i))"

definition editKey :: "TextEdit \<Rightarrow> string" where
  "editKey edit = numberToString (startOffset edit) @ '':'' @ numberToString (endOffset edit)"

text \<open>
  The loop body of \<open>dedupeEdits\<close> on the pair \<open>(seen, result)\<close>: \<open>seen\<close> is the
  \<open>Set<string>\<close> of keys, \<open>result\<close> grows by \<open>push\<close>.
\<close>

definition dedupeStep ::
  "string set \<times> TextEdit list \<Rightarrow> TextEdit \<Rightarrow> string set \<times> TextEdit list" where
  "dedupeStep st edit =
     (let key = editKey edit
      in if key \<in> fst st then st else (insert key (fst st), snd st @ [edit]))"

definition dedupeEdits :: "TextEdit list \<Rightarrow> TextEdit list" where
  "dedupeEdits edits = snd (foldl dedupeStep ({}, []) edits)"

text \<open>
  The specification's wording of de-duplication, to compare \<open>dedupeEdits\<close> with: an edit
  stays exactly when no earlier edit of the list has the same pair of offsets.
\<close>

definition rangeOf :: "TextEdit \<Rightarrow> int \<times> int" where
  "rangeOf e = (startOffset e, endOffset e)"

definition firstOccurrences :: "TextEdit list \<Rightarrow> TextEdit list" where
  "firstOccurrences edits =
     [edits ! i. i \<leftarrow> [0..<length edits], \<forall>j<i. rangeOf (edits ! j) \<noteq> rangeOf (edits ! i)]"

section \<open>The language service and the host, as the canonicalizer sees them\<close>

text \<open>
  The diagnostics come from \<open>@tailwindcss/language-service\<close>, documents from
  \<open>vscode-languageserver-textdocument\<close>, paths from Node. None of that code belongs to
  the repository, so every such function is a field of the record \<open>Runtime\<close> and the
  definitions below take the record as an argument: what is proved holds for every
  implementation of these functions.
\<close>

datatype DiagnosticKind = SuggestCanonicalClasses | OtherDiagnosticKind string

record Position =
  line :: nat
  character :: nat

record Range =
  rangeStart :: Position
  rangeEnd :: Position

text \<open>
  \<open>suggestions\<close> is read as \<open>diagnostic.suggestions?.[0]\<close>, so the field may be absent.
\<close>

record Diagnostic =
  code :: DiagnosticKind
  diagRange :: Range
  suggestions :: "string list option"

record TextDocument =
  uri :: string
  languageId :: string
  version :: nat
  content :: string

text \<open>
  The settings of the language service: the root font size, a JavaScript number that the
  pipeline only hands on to the analyzer, modelled as \<open>int\<close>, and all the other
  settings, which the pipeline leaves as \<open>getDefaultTailwindSettings\<close> made them.
\<close>

record Settings =
  rootFontSize :: int
  otherSettings :: "(string \<times> string) list"

record DesignSystem =
  canonicalizeCandidates :: "(string list \<Rightarrow> int option \<Rightarrow> string list) option"
  invalidCandidates :: "string list option"

text \<open>The options object handed to \<open>createState\<close>.\<close>

record State =
  v4 :: bool
  designSystem :: DesignSystem
  blocklist :: "string list"
  folder :: string
  userLanguages :: "(string \<times> string) list"
  getConfiguration :: Settings

record Runtime =
  extname :: "string \<Rightarrow> string"
  toLowerCase :: "string \<Rightarrow> string"
  resolve :: "string \<Rightarrow> string \<Rightarrow> string"
  pathToFileURL :: "string \<Rightarrow> string"
  getDefaultTailwindSettings :: Settings
  doValidate :: "State \<Rightarrow> TextDocument \<Rightarrow> DiagnosticKind list \<Rightarrow> string + Diagnostic list"
  offsetAt :: "TextDocument \<Rightarrow> Position \<Rightarrow> int"
  getText :: "TextDocument \<Rightarrow> Range \<Rightarrow> string"

text \<open>
  \<open>doValidate\<close> returns \<open>Inl message\<close> when the analyzer throws; the pipeline has no
  handler of its own, so the failure passes through to the caller.
\<close>

section \<open>The canonicalizer\<close>

definition DEFAULT_DOCUMENT_VERSION :: nat where
  "DEFAULT_DOCUMENT_VERSION = 1"

definition DEFAULT_ROOT_FONT_SIZE :: int where
  "DEFAULT_ROOT_FONT_SIZE = 16"

definition SUPPORTED_EXTENSIONS :: "string set" where
  "SUPPORTED_EXTENSIONS =
     {''.astro'', ''.css'', ''.html'', ''.htm'', ''.js'', ''.jsx'', ''.less'', ''.md'',
      ''.mdx'', ''.mjs'', ''.mts'', ''.pcss'', ''.postcss'', ''.sass'', ''.scss'', ''.styl'',
      ''.stylus'', ''.sss'', ''.svelte'', ''.ts'', ''.tsx'', ''.vue''}"

text \<open>The \<open>switch\<close> of \<open>inferLanguageId\<close>; \<open>None\<close> is \<open>null\<close>.\<close>

definition inferLanguageId :: "Runtime \<Rightarrow> string \<Rightarrow> string option" where
  "inferLanguageId rt filePath =
     (let ext = toLowerCase rt (extname rt filePath)
      in if ext \<in> {''.css'', ''.less'', ''.pcss'', ''.postcss'', ''.scss'', ''.sass'',
                    ''.styl'', ''.stylus'', ''.sss''} then Some ''css''
         else if ext \<in> {''.html'', ''.htm'', ''.md'', ''.mdx''} then Some ''html''
         else if ext \<in> {''.js'', ''.mjs''} then Some ''javascript''
         else if ext = ''.jsx'' then Some ''javascriptreact''
         else if ext \<in> {''.ts'', ''.mts''} then Some ''typescript''
         else if ext = ''.tsx'' then Some ''typescriptreact''
         else if ext = ''.vue'' then Some ''vue''
         else if ext = ''.svelte'' then Some ''svelte''
         else if ext = ''.astro'' then Some ''astro''
         else None)"

definition isSupportedExtension :: "Runtime \<Rightarrow> string \<Rightarrow> bool" where
  "isSupportedExtension rt filePath =
     (let ext = toLowerCase rt (extname rt filePath) in ext \<in> SUPPORTED_EXTENSIONS)"

definition createTextDocument :: "Runtime \<Rightarrow> string \<Rightarrow> string \<Rightarrow> string \<Rightarrow> TextDocument" where
  "createTextDocument rt filePath langId text =
     \<lparr>uri = pathToFileURL rt filePath, languageId = langId,
      version = DEFAULT_DOCUMENT_VERSION, content = text\<rparr>"

definition createSettings :: "Runtime \<Rightarrow> int \<Rightarrow> Settings" where
  "createSettings rt fontSize = (getDefaultTailwindSettings rt)\<lparr>rootFontSize := fontSize\<rparr>"

definition createLanguageServiceState :: "DesignSystem \<Rightarrow> string \<Rightarrow> Settings \<Rightarrow> State" where
  "createLanguageServiceState ds rootDir settings =
     \<lparr>v4 = True, designSystem = ds,
      blocklist = (case invalidCandidates ds of None \<Rightarrow> [] | Some cs \<Rightarrow> cs),
      folder = rootDir, userLanguages = [], getConfiguration = settings\<rparr>"

text \<open>The library's type guard: the diagnostic's code is the canonical-class kind.\<close>

definition isSuggestCanonicalClasses :: "Diagnostic \<Rightarrow> bool" where
  "isSuggestCanonicalClasses diagnostic = (code diagnostic = SuggestCanonicalClasses)"

text \<open>\<open>diagnostic.suggestions?.[0]\<close>, with \<open>None\<close> for \<open>undefined\<close>.\<close>

definition firstSuggestion :: "Diagnostic \<Rightarrow> string option" where
  "firstSuggestion diagnostic =
     (case suggestions diagnostic of None \<Rightarrow> None | Some [] \<Rightarrow> None | Some (s # _) \<Rightarrow> Some s)"

text \<open>
  One turn of the loop of \<open>buildCanonicalEdits\<close>: \<open>None\<close> where the source says
  \<open>continue\<close>, \<open>Some edit\<close> where it pushes the edit. The test \<open>!suggestion\<close> holds of
  \<open>undefined\<close> and of the empty string.
\<close>

definition diagnosticEdit :: "Runtime \<Rightarrow> TextDocument \<Rightarrow> Diagnostic \<Rightarrow> TextEdit option" where
  "diagnosticEdit rt document diagnostic =
     (if \<not> isSuggestCanonicalClasses diagnostic then None
      else (case firstSuggestion diagnostic of
              None \<Rightarrow> None
            | Some suggestion \<Rightarrow>
                if suggestion = [] then None
                else let startO = offsetAt rt document (rangeStart (diagRange diagnostic));
                         endO = offsetAt rt document (rangeEnd (diagRange diagnostic))
                     in if startO \<ge> endO then None
                        else Some \<lparr>startOffset = startO, endOffset = endO,
                                    replacement = suggestion,
                                    original = getText rt document (diagRange diagnostic)\<rparr>))"

definition pushEdit :: "Runtime \<Rightarrow> TextDocument \<Rightarrow> TextEdit list \<Rightarrow> Diagnostic \<Rightarrow> TextEdit list" where
  "pushEdit rt document edits diagnostic =
     (case diagnosticEdit rt document diagnostic of None \<Rightarrow> edits | Some e \<Rightarrow> edits @ [e])"

text \<open>The list \<open>edits\<close> at the end of the loop, before \<open>dedupeEdits\<close>.\<close>

definition rawEdits :: "Runtime \<Rightarrow> TextDocument \<Rightarrow> Diagnostic list \<Rightarrow> TextEdit list" where
  "rawEdits rt document diagnostics = foldl (pushEdit rt document) [] diagnostics"

definition buildCanonicalEdits :: "Runtime \<Rightarrow> State \<Rightarrow> TextDocument \<Rightarrow> string + TextEdit list" where
  "buildCanonicalEdits rt state document =
     (case doValidate rt state document [SuggestCanonicalClasses] of
        Inl err \<Rightarrow> Inl err
      | Inr diagnostics \<Rightarrow> Inr (dedupeEdits (rawEdits rt document diagnostics)))"

record CanonicalizeOptions =
  optRootFontSize :: "int option"

definition canonicalizeDocument ::
  "Runtime \<Rightarrow> string \<Rightarrow> string \<Rightarrow> DesignSystem \<Rightarrow> string \<Rightarrow> CanonicalizeOptions \<Rightarrow> string + string" where
  "canonicalizeDocument rt text filePath ds rootDir options =
     (case inferLanguageId rt filePath of
        None \<Rightarrow> Inr text
      | Some langId \<Rightarrow>
          let settings = createSettings rt
                (case optRootFontSize options of None \<Rightarrow> DEFAULT_ROOT_FONT_SIZE | Some r \<Rightarrow> r);
              state = createLanguageServiceState ds rootDir settings;
              document = createTextDocument rt filePath langId text
          in (case buildCanonicalEdits rt state document of
                Inl err \<Rightarrow> Inl err
              | Inr edits \<Rightarrow>
                  if length edits = 0 then Inr text else Inr (applyTextEdits text edits)))"

text \<open>
  The two intermediate values of \<open>canonicalizeDocument\<close> for a file whose language id is
  \<open>langId\<close>: the answer of the analyzer, and the edits built from it.
\<close>

definition diagnosticsFor ::
  "Runtime \<Rightarrow> string \<Rightarrow> string \<Rightarrow> DesignSystem \<Rightarrow> string \<Rightarrow> CanonicalizeOptions \<Rightarrow> string \<Rightarrow>
   string + Diagnostic list" where
  "diagnosticsFor rt text filePath ds rootDir options langId =
     doValidate rt
       (createLanguageServiceState ds rootDir
          (createSettings rt
             (case optRootFontSize options of None \<Rightarrow> DEFAULT_ROOT_FONT_SIZE | Some r \<Rightarrow> r)))
       (createTextDocument rt filePath langId text) [SuggestCanonicalClasses]"

definition editsFor ::
  "Runtime \<Rightarrow> string \<Rightarrow> string \<Rightarrow> DesignSystem \<Rightarrow> string \<Rightarrow> CanonicalizeOptions \<Rightarrow> string \<Rightarrow>
   string + TextEdit list" where
  "editsFor rt text filePath ds rootDir options langId =
     buildCanonicalEdits rt
       (createLanguageServiceState ds rootDir
          (createSettings rt
             (case optRootFontSize options of None \<Rightarrow> DEFAULT_ROOT_FONT_SIZE | Some r \<Rightarrow> r)))
       (createTextDocument rt filePath langId text)"

section \<open>The design-system cache\<close>

text \<open>
  \<open>designSystemCache\<close> is a \<open>Map<string, Promise<DesignSystem>>\<close>. A promise is
  identified by the number of the call of \<open>loadTailwindDesignSystem\<close> that made it:
  \<open>loadCalls\<close> lists the arguments of every such call so far, and the promise of call
  number \<open>n\<close> is \<open>n\<close>. The body of \<open>getDesignSystem\<close> contains no \<open>await\<close>, so it
  runs from its first statement to its \<open>return\<close> without any other code in between:
  one call is one step on the loader state. Whether a promise has settled is no part of
  that state, since the body never asks.
\<close>

record LoaderState =
  designSystemCache :: "string \<rightharpoonup> nat"
  loadCalls :: "(string \<times> string option) list"

definition cacheKeyOf :: "Runtime \<Rightarrow> string \<Rightarrow> string option \<Rightarrow> string" where
  "cacheKeyOf rt rootDir cssPath =
     (let resolvedPath =
            (case cssPath of
               None \<Rightarrow> None
             | Some p \<Rightarrow> if p = [] then None else Some (resolve rt rootDir p))
      in (case resolvedPath of Some r \<Rightarrow> r | None \<Rightarrow> ''default:'' @ rootDir))"

definition getDesignSystem ::
  "Runtime \<Rightarrow> string \<Rightarrow> string option \<Rightarrow> LoaderState \<Rightarrow> nat option \<times> LoaderState" where
  "getDesignSystem rt rootDir cssPath s =
     (let cacheKey = cacheKeyOf rt rootDir cssPath;
          s' = (if designSystemCache s cacheKey = None
                then s\<lparr>designSystemCache := (designSystemCache s)(cacheKey \<mapsto> length (loadCalls s)),
                       loadCalls := loadCalls s @ [(rootDir, cssPath)]\<rparr>
                else s)
      in (designSystemCache s' cacheKey, s'))"

definition clearDesignSystemCache :: "LoaderState \<Rightarrow> LoaderState" where
  "clearDesignSystemCache s = s\<lparr>designSystemCache := Map.empty\<rparr>"

text \<open>The loader state after a list of calls of \<open>getDesignSystem\<close>, given by their arguments.\<close>

definition afterCalls :: "Runtime \<Rightarrow> (string \<times> string option) list \<Rightarrow> LoaderState \<Rightarrow> LoaderState" where
  "afterCalls rt calls s = foldl (\<lambda>st call. snd (getDesignSystem rt (fst call) (snd call) st)) s calls"

text \<open>The calls of \<open>loadTailwindDesignSystem\<close> made so far for a cache key.\<close>

definition loadsFor :: "Runtime \<Rightarrow> string \<Rightarrow> LoaderState \<Rightarrow> (string \<times> string option) list" where
  "loadsFor rt key s = filter (\<lambda>call. cacheKeyOf rt (fst call) (snd call) = key) (loadCalls s)"

section \<open>The command-line tool\<close>

definition EXIT_SUCCESS :: nat where
  "EXIT_SUCCESS = 0"

definition EXIT_FAILURE :: nat where
  "EXIT_FAILURE = 1"

datatype WriteMode = Write | Check

record CliArgs =
  targets :: "string list"
  argRootDir :: string
  cssPath :: "string option"
  argRootFontSize :: int
  writeMode :: WriteMode
  verbose :: bool
  helpFlag :: bool

datatype FileResultStatus = Changed | Unchanged | Skipped | Failed

text \<open>\<open>Failed\<close> is the status \<open>'error'\<close>.\<close>

record FileResult =
  filePath :: string
  status :: FileResultStatus
  editCount :: nat
  message :: "string option"

record Summary =
  changed :: nat
  unchanged :: nat
  skipped :: nat
  errors :: nat

text \<open>
  The file system and the module loader, over a state \<open>'w\<close> of the outside world that
  the run threads through: \<open>glob\<close> is \<open>tinyglobby\<close> with the options of
  \<open>resolveTargetFiles\<close>, \<open>readFile\<close> and \<open>writeFile\<close> are those of \<open>node:fs/promises\<close>
  in \<open>utf8\<close>, and \<open>awaitDesignSystem\<close> is what \<open>await getDesignSystem(rootDir, cssPath)\<close>
  gives in a fresh process. \<open>Inl message\<close> is a rejection; \<open>writeFile\<close> gives the
  message of its failure, if any, and the world after the attempt.
\<close>

record 'w World =
  glob :: "'w \<Rightarrow> string list \<Rightarrow> string \<Rightarrow> string + string list"
  readFile :: "'w \<Rightarrow> string \<Rightarrow> string + string"
  writeFile :: "'w \<Rightarrow> string \<Rightarrow> string \<Rightarrow> string option \<times> 'w"
  awaitDesignSystem :: "'w \<Rightarrow> string \<Rightarrow> string option \<Rightarrow> string + DesignSystem option"

definition resolveStep :: "Runtime \<Rightarrow> string set \<times> string list \<Rightarrow> string \<Rightarrow> string set \<times> string list" where
  "resolveStep rt st path =
     (if \<not> isSupportedExtension rt path then st
      else if path \<notin> fst st then (insert path (fst st), snd st @ [path])
      else st)"

definition resolveTargetFiles ::
  "Runtime \<Rightarrow> 'w World \<Rightarrow> 'w \<Rightarrow> string list \<Rightarrow> string \<Rightarrow> string + string list" where
  "resolveTargetFiles rt world w tgts rootDir =
     (case glob world w tgts rootDir of
        Inl err \<Rightarrow> Inl err
      | Inr files \<Rightarrow> Inr (snd (foldl (resolveStep rt) ({}, []) files)))"

text \<open>\<open>split('\n')\<close>: the pieces between line feeds, at least one.\<close>

fun splitLines :: "string \<Rightarrow> string list" where
  "splitLines [] = [[]]"
| "splitLines (c # cs) =
     (if c = CHR 0x0A then [] # splitLines cs
      else (case splitLines cs of [] \<Rightarrow> [[c]] | l # ls \<Rightarrow> (c # l) # ls))"

text \<open>An index past the end of an array reads \<open>undefined\<close>, here \<open>None\<close>.\<close>

definition lineAt :: "string list \<Rightarrow> nat \<Rightarrow> string option" where
  "lineAt ls i = (if i < length ls then Some (ls ! i) else None)"

definition countChanges :: "string \<Rightarrow> string \<Rightarrow> nat" where
  "countChanges orig modified =
     (let originalLines = splitLines orig;
          modifiedLines = splitLines modified;
          maxLen = max (length originalLines) (length modifiedLines)
      in length (filter (\<lambda>i. lineAt originalLines i \<noteq> lineAt modifiedLines i) [0..<maxLen]))"

definition failedResult :: "string \<Rightarrow> string \<Rightarrow> FileResult" where
  "failedResult path msg =
     \<lparr>filePath = path, status = Failed, editCount = 0, message = Some msg\<rparr>"

definition processFile ::
  "Runtime \<Rightarrow> 'w World \<Rightarrow> 'w \<Rightarrow> string \<Rightarrow> DesignSystem \<Rightarrow> CliArgs \<Rightarrow> FileResult \<times> 'w" where
  "processFile rt world w path ds args =
     (case readFile world w path of
        Inl err \<Rightarrow> (failedResult path err, w)
      | Inr text \<Rightarrow>
          (case canonicalizeDocument rt text path ds (argRootDir args)
                  \<lparr>optRootFontSize = Some (argRootFontSize args)\<rparr> of
             Inl err \<Rightarrow> (failedResult path err, w)
           | Inr nextText \<Rightarrow>
               if nextText = text
               then (\<lparr>filePath = path, status = Unchanged, editCount = 0, message = None\<rparr>, w)
               else let n = countChanges text nextText
                    in if writeMode args = Write
                       then (case writeFile world w path nextText of
                               (Some err, w') \<Rightarrow> (failedResult path err, w')
                             | (None, w') \<Rightarrow>
                                 (\<lparr>filePath = path, status = Changed, editCount = n,
                                   message = None\<rparr>, w'))
                       else (\<lparr>filePath = path, status = Changed, editCount = n,
                               message = None\<rparr>, w)))"

text \<open>The loop of \<open>main\<close> over the targets, on the pair \<open>(results, world)\<close>.\<close>

definition processStep ::
  "Runtime \<Rightarrow> 'w World \<Rightarrow> DesignSystem \<Rightarrow> CliArgs \<Rightarrow> FileResult list \<times> 'w \<Rightarrow> string \<Rightarrow>
   FileResult list \<times> 'w" where
  "processStep rt world ds args st path =
     (let (r, w') = processFile rt world (snd st) path ds args in (fst st @ [r], w'))"

definition countStep :: "Summary \<Rightarrow> FileResult \<Rightarrow> Summary" where
  "countStep acc r =
     (case status r of
        Changed \<Rightarrow> acc\<lparr>changed := changed acc + 1\<rparr>
      | Unchanged \<Rightarrow> acc\<lparr>unchanged := unchanged acc + 1\<rparr>
      | Skipped \<Rightarrow> acc\<lparr>skipped := skipped acc + 1\<rparr>
      | Failed \<Rightarrow> acc\<lparr>errors := errors acc + 1\<rparr>)"

definition summarizeResults :: "FileResult list \<Rightarrow> Summary" where
  "summarizeResults results =
     foldl countStep \<lparr>changed = 0, unchanged = 0, skipped = 0, errors = 0\<rparr> results"

text \<open>
  How a run of \<open>main\<close> ends. \<open>Usage\<close>, \<open>NoMatchingFiles\<close> and \<open>Unavailable\<close> are the
  three calls of \<open>process.exit\<close> before any file is touched, with the exit code given;
  \<open>Rejected\<close> is a rejection that \<open>main\<close> does not catch; \<open>Completed\<close> is a run that
  reached the summary line, with the per-file results, the counts and the exit code:
  \<open>EXIT_FAILURE\<close> from the last \<open>process.exit\<close>, or the \<open>0\<close> of a process that ends by
  itself when \<open>main\<close> returns. What the run prints is not modelled: the lines it prints
  are computed from the results and counts kept here.
\<close>

datatype MainOutcome =
    Usage nat
  | NoMatchingFiles nat
  | Unavailable nat
  | Rejected string
  | Completed "FileResult list" Summary nat

definition main :: "Runtime \<Rightarrow> 'w World \<Rightarrow> 'w \<Rightarrow> CliArgs \<Rightarrow> MainOutcome \<times> 'w" where
  "main rt world w args =
     (if helpFlag args \<or> length (targets args) = 0
      then (Usage (if length (targets args) = 0 then EXIT_FAILURE else EXIT_SUCCESS), w)
      else (case resolveTargetFiles rt world w (targets args) (argRootDir args) of
              Inl err \<Rightarrow> (Rejected err, w)
            | Inr files \<Rightarrow>
                if length files = 0 then (NoMatchingFiles EXIT_FAILURE, w)
                else (case awaitDesignSystem world w (argRootDir args) (cssPath args) of
                        Inl err \<Rightarrow> (Rejected err, w)
                      | Inr None \<Rightarrow> (Unavailable EXIT_FAILURE, w)
                      | Inr (Some ds) \<Rightarrow>
                          if canonicalizeCandidates ds = None
                          then (Unavailable EXIT_FAILURE, w)
                          else let (results, w') =
                                     foldl (processStep rt world ds args) ([], w) files;
                                   summary = summarizeResults results
                               in (Completed results summary
                                     (if errors summary > 0 then EXIT_FAILURE
                                      else EXIT_SUCCESS), w'))))"

definition exitStatus :: "MainOutcome \<Rightarrow> nat option" where
  "exitStatus outcome =
     (case outcome of
        Usage c \<Rightarrow> Some c
      | NoMatchingFiles c \<Rightarrow> Some c
      | Unavailable c \<Rightarrow> Some c
      | Rejected err \<Rightarrow> None
      | Completed results summary c \<Rightarrow> Some c)"

definition fileResults :: "MainOutcome \<Rightarrow> FileResult list" where
  "fileResults outcome =
     (case outcome of Completed results summary c \<Rightarrow> results | _ \<Rightarrow> [])"

section \<open>Concrete inputs\<close>

text \<open>
  A host to evaluate the definitions on: paths without trailing separators, ASCII
  letters, documents of one line, and a scripted analyzer. The analyzer of the library is
  not part of the program, so the host does not imitate it: \<open>scriptedAnalyzer\<close> answers
  from a table that gives the diagnostics to report for a document text, and reports
  nothing for a text that the table does not have.
\<close>

definition lowerChar :: "char \<Rightarrow> char" where
  "lowerChar c =
     (case map_of (zip ''ABCDEFGHIJKLMNOPQRSTUVWXYZ'' ''abcdefghijklmnopqrstuvwxyz'') c of
        None \<Rightarrow> c
      | Some l \<Rightarrow> l)"

definition baseName :: "string \<Rightarrow> string" where
  "baseName p = rev (takeWhile (\<lambda>c. c \<noteq> CHR ''/'') (rev p))"

definition extnameOf :: "string \<Rightarrow> string" where
  "extnameOf p =
     (let b = baseName p;
          suffix = rev (takeWhile (\<lambda>c. c \<noteq> CHR ''.'') (rev b))
      in if CHR ''.'' \<notin> set b \<or> b = ''..'' \<or> length b = length suffix + 1 then []
         else CHR ''.'' # suffix)"

definition diagnosticAt :: "nat \<Rightarrow> nat \<Rightarrow> string list \<Rightarrow> Diagnostic" where
  "diagnosticAt a b ss =
     \<lparr>code = SuggestCanonicalClasses,
      diagRange = \<lparr>rangeStart = \<lparr>line = 0, character = a\<rparr>,
                   rangeEnd = \<lparr>line = 0, character = b\<rparr>\<rparr>,
      suggestions = Some ss\<rparr>"

definition scriptedAnalyzer ::
  "(string \<times> Diagnostic list) list \<Rightarrow>
   State \<Rightarrow> TextDocument \<Rightarrow> DiagnosticKind list \<Rightarrow> string + Diagnostic list" where
  "scriptedAnalyzer answers state document kinds =
     (case map_of answers (content document) of
        None \<Rightarrow> Inr []
      | Some diagnostics \<Rightarrow> Inr diagnostics)"

text \<open>
  The table of the host: in the class list \<open>mt-[16px] p-[8px]\<close> the class at offsets 0
  to 9 can be written \<open>mt-4\<close> and the class at offsets 10 to 17 can be written \<open>p-2\<close>.
\<close>

definition exampleAnswers :: "(string \<times> Diagnostic list) list" where
  "exampleAnswers =
     [(''mt-[16px] p-[8px]'', [diagnosticAt 0 9 [''mt-4''], diagnosticAt 10 17 [''p-2'']])]"

definition exampleRuntime :: Runtime where
  "exampleRuntime =
     \<lparr>extname = extnameOf,
      toLowerCase = map lowerChar,
      resolve = (\<lambda>dir p. dir @ ''/'' @ p),
      pathToFileURL = (\<lambda>p. ''file://'' @ p),
      getDefaultTailwindSettings = \<lparr>rootFontSize = 16, otherSettings = []\<rparr>,
      doValidate = scriptedAnalyzer exampleAnswers,
      offsetAt = (\<lambda>document pos. int (character pos)),
      getText = (\<lambda>document r.
        slice (content document) (int (character (rangeStart r))) (int (character (rangeEnd r))))\<rparr>"

definition exampleState :: State where
  "exampleState =
     createLanguageServiceState
       \<lparr>canonicalizeCandidates = Some (\<lambda>classes rem. classes), invalidCandidates = None\<rparr>
       ''/app'' (createSettings exampleRuntime 16)"

definition exampleDocument :: "string \<Rightarrow> TextDocument" where
  "exampleDocument text = createTextDocument exampleRuntime ''/app/a.html'' ''html'' text"

text \<open>The same host with an analyzer that reports a given list of diagnostics.\<close>

definition reportingRuntime :: "Diagnostic list \<Rightarrow> Runtime" where
  "reportingRuntime ds = exampleRuntime\<lparr>doValidate := (\<lambda>state document kinds. Inr ds)\<rparr>"

text \<open>
  A design system that rewrites \<open>mt-[16px]\<close> to \<open>mt-4\<close>, \<open>p-[8px]\<close> to \<open>p-2\<close>, and
  nothing else.
\<close>

definition spacingDesignSystem :: DesignSystem where
  "spacingDesignSystem =
     \<lparr>canonicalizeCandidates =
        Some (\<lambda>classes rem.
          map (\<lambda>c. if c = ''mt-[16px]'' then ''mt-4''
                   else if c = ''p-[8px]'' then ''p-2'' else c) classes),
      invalidCandidates = None\<rparr>"

text \<open>
  A world that is a list of files with their contents: a target matches when it names
  a file of the list, and every write succeeds.
\<close>

definition exampleWorld :: "DesignSystem \<Rightarrow> (string \<times> string) list World" where
  "exampleWorld ds =
     \<lparr>glob = (\<lambda>w tgts rootDir. Inr (filter (\<lambda>p. map_of w p \<noteq> None) tgts)),
      readFile = (\<lambda>w p. case map_of w p of None \<Rightarrow> Inl ''ENOENT'' | Some t \<Rightarrow> Inr t),
      writeFile = (\<lambda>w p t. (None, (p, t) # w)),
      awaitDesignSystem = (\<lambda>w rootDir css. Inr (Some ds))\<rparr>"

definition exampleArgs :: "string list \<Rightarrow> CliArgs" where
  "exampleArgs tgts =
     \<lparr>targets = tgts, argRootDir = ''/app'', cssPath = None, argRootFontSize = 16,
      writeMode = Write, verbose = False, helpFlag = False\<rparr>"

definition editA :: TextEdit where
  "editA = \<lparr>startOffset = 0, endOffset = 5, replacement = ''A'', original = ''01234''\<rparr>"

definition editB :: TextEdit where
  "editB = \<lparr>startOffset = 3, endOffset = 8, replacement = ''B'', original = ''34567''\<rparr>"

definition editX :: TextEdit where
  "editX = \<lparr>startOffset = 1, endOffset = 7, replacement = ''X'', original = ''[16px]''\<rparr>"

definition editY :: TextEdit where
  "editY = \<lparr>startOffset = 8, endOffset = 13, replacement = ''Y'', original = ''[8px]''\<rparr>"



section \<open>Properties of the edit applier\<close>

lemma take_min_length: "take (min n (length s)) s = take n s"
  by (cases "n \<le> length s") (simp_all add: min_def)

lemma drop_min_length: "drop (min n (length s)) s = drop n s"
  by (cases "n \<le> length s") (simp_all add: min_def)

lemma slice_prefix: "0 \<le> i \<Longrightarrow> slice s 0 i = take (nat i) s"
  by (simp add: slice_def relativeIndex_def Let_def take_min_length)

lemma sliceFrom_suffix: "0 \<le> i \<Longrightarrow> sliceFrom s i = drop (nat i) s"
  by (simp add: sliceFrom_def relativeIndex_def drop_min_length)

lemma splice_take_drop:
  "0 \<le> startOffset e \<Longrightarrow> 0 \<le> endOffset e \<Longrightarrow>
   splice output e = take (nat (startOffset e)) output @ replacement e @ drop (nat (endOffset e)) output"
  by (simp add: splice_def slice_prefix sliceFrom_suffix)

lemma foldl_applyStep:
  "fst (foldl applyStep (out, l) es) = foldl splice out (appliedEdits l es)"
  by (induction es arbitrary: out l) (simp_all add: applyStep_def)

lemma applyTextEdits_applied:
  "applyTextEdits text edits = foldl splice text (appliedEdits None (sortByStartDesc edits))"
  by (simp add: applyTextEdits_def foldl_applyStep sortByStartDesc_def)

lemma sortByStartDesc_sorted_keys:
  "sorted (map (\<lambda>e. - startOffset e) (sortByStartDesc edits))"
  by (simp add: sortByStartDesc_def)

lemma sortByStartDesc_sorted:
  "sorted_wrt (\<lambda>a b. startOffset a \<ge> startOffset b) (sortByStartDesc edits)"
  using sortByStartDesc_sorted_keys [of edits]
  by (simp add: sorted_map sorted_wrt_iff_nth_less)

lemma sortByStartDesc_mset: "mset (sortByStartDesc edits) = mset edits"
  by (simp add: sortByStartDesc_def)

lemma sortByStartDesc_set: "set (sortByStartDesc edits) = set edits"
  by (simp add: sortByStartDesc_def)

lemma sortByStartDesc_stable:
  "filter (\<lambda>e. startOffset e = k) (sortByStartDesc edits) = filter (\<lambda>e. startOffset e = k) edits"
  using sort_key_stable [of "\<lambda>e. - startOffset e" "- k" edits]
  by (simp add: sortByStartDesc_def)

lemma editsDisjoint_sym: "editsDisjoint a b = editsDisjoint b a"
  by (auto simp: editsDisjoint_def)

lemma nonOverlapping_insort_key:
  "nonOverlapping (insort_key f x xs) = (list_all (editsDisjoint x) xs \<and> nonOverlapping xs)"
proof (induction xs)
  case Nil
  show ?case by simp
next
  case (Cons y ys)
  then show ?case
    using editsDisjoint_sym [of x y]
    by (auto simp: list_all_iff set_insort_key)
qed

lemma nonOverlapping_sort_key: "nonOverlapping (sort_key f xs) = nonOverlapping xs"
  by (induction xs) (simp_all add: nonOverlapping_insort_key list_all_iff)

lemma nonOverlapping_sortByStartDesc: "nonOverlapping (sortByStartDesc es) = nonOverlapping es"
  by (simp add: sortByStartDesc_def nonOverlapping_sort_key)

lemma nonOverlapping_disjoint:
  "nonOverlapping es \<Longrightarrow> a \<in> set es \<Longrightarrow> b \<in> set es \<Longrightarrow> a \<noteq> b \<Longrightarrow> editsDisjoint a b"
proof (induction es)
  case Nil
  then show ?case by simp
next
  case (Cons e es)
  then show ?case
    using editsDisjoint_sym [of a b]
    by (auto simp: list_all_iff)
qed

lemma valid_not_self_disjoint: "validEdit a \<Longrightarrow> startOffset a = startOffset b \<Longrightarrow> validEdit b \<Longrightarrow> \<not> editsDisjoint a b"
  by (auto simp: validEdit_def editsDisjoint_def)

lemma startOffset_inj_on:
  assumes "\<forall>e\<in>set es. validEdit e" and "nonOverlapping es"
  shows "inj_on (\<lambda>e. - startOffset e) (set es)"
proof (rule inj_onI)
  fix a b
  assume a: "a \<in> set es" and b: "b \<in> set es" and eq: "- startOffset a = - startOffset b"
  show "a = b"
  proof (rule ccontr)
    assume "a \<noteq> b"
    with assms(2) a b have "editsDisjoint a b" by (rule nonOverlapping_disjoint)
    moreover from assms(1) a b eq have "\<not> editsDisjoint a b"
      by (intro valid_not_self_disjoint) auto
    ultimately show False by simp
  qed
qed

lemma sortByStartDesc_permutation:
  assumes "\<forall>e\<in>set es. validEdit e" and "nonOverlapping es" and "mset es' = mset es"
  shows "sortByStartDesc es' = sortByStartDesc es"
proof -
  from assms(3) have sets: "set es' = set es" by (rule mset_eq_setD)
  have "sort_key (\<lambda>e. - startOffset e) es' = sort_key (\<lambda>e. - startOffset e) es"
  proof (rule sort_key_inj_key_eq)
    show "mset es' = mset (sort_key (\<lambda>e. - startOffset e) es)" using assms(3) by simp
    show "inj_on (\<lambda>e. - startOffset e) (set es')"
      using startOffset_inj_on [OF assms(1,2)] sets by simp
    show "sorted (map (\<lambda>e. - startOffset e) (sort_key (\<lambda>e. - startOffset e) es))" by simp
  qed
  then show ?thesis by (simp add: sortByStartDesc_def)
qed

text \<open>
  On a list in descending order of start offsets whose valid edits do not overlap, the
  loop skips nothing once it has taken the first edit.
\<close>

lemma appliedEdits_all:
  assumes "sorted (map (\<lambda>e. - startOffset e) ds)" and "nonOverlapping ds"
    and "\<forall>e\<in>set ds. validEdit e" and "\<forall>e\<in>set ds. \<not> exceeds (endOffset e) l"
  shows "appliedEdits l ds = ds"
  using assms
proof (induction ds arbitrary: l)
  case Nil
  show ?case by simp
next
  case (Cons d ds)
  have "\<forall>e\<in>set ds. \<not> exceeds (endOffset e) (Some (startOffset d))"
  proof
    fix e assume e: "e \<in> set ds"
    with Cons.prems(1) have le: "startOffset e \<le> startOffset d" by auto
    from Cons.prems(2) e have "editsDisjoint d e" by (simp add: list_all_iff)
    moreover from Cons.prems(3) e have "startOffset e < endOffset e" "startOffset d < endOffset d"
      by (simp_all add: validEdit_def)
    ultimately have "endOffset e \<le> startOffset d" using le by (auto simp: editsDisjoint_def)
    then show "\<not> exceeds (endOffset e) (Some (startOffset d))" by (simp add: exceeds_def)
  qed
  with Cons.prems have "appliedEdits (Some (startOffset d)) ds = ds"
    by (intro Cons.IH) simp_all
  with Cons.prems(4) show ?case by simp
qed

lemma appliedEdits_nonOverlapping:
  assumes "\<forall>e\<in>set es. validEdit e" and "nonOverlapping es"
  shows "appliedEdits None (sortByStartDesc es) = sortByStartDesc es"
proof (rule appliedEdits_all)
  show "sorted (map (\<lambda>e. - startOffset e) (sortByStartDesc es))"
    by (rule sortByStartDesc_sorted_keys)
  show "nonOverlapping (sortByStartDesc es)"
    using assms(2) by (simp add: nonOverlapping_sortByStartDesc)
  show "\<forall>e\<in>set (sortByStartDesc es). validEdit e"
    using assms(1) by (simp add: sortByStartDesc_set)
  show "\<forall>e\<in>set (sortByStartDesc es). \<not> exceeds (endOffset e) None"
    by (simp add: exceeds_def)
qed

lemma appliedEdits_sublist: "subseq (appliedEdits l es) es"
  by (induction es arbitrary: l) auto


lemma replaceRanges_snoc:
  assumes "\<forall>x\<in>set es. startOffset x \<le> endOffset x \<and> endOffset x \<le> startOffset d"
    and "pos \<le> nat (startOffset d)"
  shows "replaceRanges text pos (es @ [d]) =
           replaceRanges (take (nat (startOffset d)) text) pos es @ replacement d
             @ drop (nat (endOffset d)) text"
  using assms
proof (induction es arbitrary: pos)
  case Nil
  show ?case by (simp add: drop_take)
next
  case (Cons x es)
  from Cons.prems(1) have x: "startOffset x \<le> endOffset x" "endOffset x \<le> startOffset d"
    by simp_all
  then have le: "nat (endOffset x) \<le> nat (startOffset d)" by simp
  have "replaceRanges text (nat (endOffset x)) (es @ [d]) =
          replaceRanges (take (nat (startOffset d)) text) (nat (endOffset x)) es @ replacement d
            @ drop (nat (endOffset d)) text"
    using Cons.prems(1) le by (intro Cons.IH) simp_all
  moreover have "take (nat (startOffset x) - pos) (drop pos (take (nat (startOffset d)) text)) =
                 take (nat (startOffset x) - pos) (drop pos text)"
  proof -
    from x have "nat (startOffset x) - pos \<le> nat (startOffset d) - pos" by simp
    then show ?thesis by (simp add: drop_take min_def)
  qed
  ultimately show ?case by simp
qed

text \<open>
  Splicing the right-most edit leaves the text to its left as it was, so the edits
  still to come find their ranges where the original text had them.
\<close>

lemma leftOf_first:
  assumes "sorted (map (\<lambda>e. - startOffset e) (d # ds))" and "nonOverlapping (d # ds)"
    and "\<forall>e\<in>set (d # ds). validEdit e" and "e \<in> set ds"
  shows "endOffset e \<le> startOffset d"
proof -
  from assms(1,4) have le: "startOffset e \<le> startOffset d" by auto
  from assms(2,4) have "editsDisjoint d e" by (simp add: list_all_iff)
  moreover from assms(3,4) have "startOffset e < endOffset e" "startOffset d < endOffset d"
    by (simp_all add: validEdit_def)
  ultimately show ?thesis using le by (auto simp: editsDisjoint_def)
qed

lemma foldl_splice_append:
  assumes "sorted (map (\<lambda>e. - startOffset e) ds)" and "nonOverlapping ds"
    and "\<forall>e\<in>set ds. validEdit e" and "\<forall>e\<in>set ds. inRange p e"
  shows "foldl splice (p @ s) ds = foldl splice p ds @ s"
  using assms
proof (induction ds arbitrary: p s)
  case Nil
  show ?case by simp
next
  case (Cons d ds)
  let ?a = "nat (startOffset d)" and ?b = "nat (endOffset d)"
  from Cons.prems(3,4) have d: "0 \<le> startOffset d" "startOffset d < endOffset d"
    "endOffset d \<le> int (length p)"
    by (simp_all add: validEdit_def inRange_def)
  then have ab: "?a \<le> length p" "?b \<le> length p" by simp_all
  have rest: "\<forall>e\<in>set ds. inRange (take ?a p) e"
  proof
    fix e assume e: "e \<in> set ds"
    from Cons.prems(1-3) e have "endOffset e \<le> startOffset d" by (rule leftOf_first)
    moreover from Cons.prems(4) e have "0 \<le> startOffset e" by (simp add: inRange_def)
    moreover have "int (length (take ?a p)) = startOffset d" using d ab by simp
    ultimately show "inRange (take ?a p) e" unfolding inRange_def by linarith
  qed
  have ih: "\<And>t. foldl splice (take ?a p @ t) ds = foldl splice (take ?a p) ds @ t"
    using Cons.prems(1-3) rest by (intro Cons.IH) simp_all
  have "splice (p @ s) d = take ?a p @ (replacement d @ drop ?b p @ s)"
    using d ab by (simp add: splice_take_drop)
  moreover have "splice p d = take ?a p @ (replacement d @ drop ?b p)"
    using d by (simp add: splice_take_drop)
  ultimately show ?case by (simp only: foldl_Cons ih append_assoc)
qed

lemma foldl_splice_replaceRanges:
  assumes "sorted (map (\<lambda>e. - startOffset e) ds)" and "nonOverlapping ds"
    and "\<forall>e\<in>set ds. validEdit e" and "\<forall>e\<in>set ds. inRange p e"
  shows "foldl splice p ds = replaceRanges p 0 (rev ds)"
  using assms
proof (induction ds arbitrary: p)
  case Nil
  show ?case by simp
next
  case (Cons d ds)
  let ?a = "nat (startOffset d)" and ?b = "nat (endOffset d)"
  from Cons.prems(3,4) have d: "0 \<le> startOffset d" "startOffset d < endOffset d"
    "endOffset d \<le> int (length p)"
    by (simp_all add: validEdit_def inRange_def)
  then have ab: "?a \<le> length p" by simp
  have left: "\<forall>e\<in>set ds. endOffset e \<le> startOffset d"
    using Cons.prems(1-3) leftOf_first by blast
  have rest: "\<forall>e\<in>set ds. inRange (take ?a p) e"
  proof
    fix e assume e: "e \<in> set ds"
    with left have "endOffset e \<le> startOffset d" by simp
    moreover from Cons.prems(4) e have "0 \<le> startOffset e" by (simp add: inRange_def)
    moreover have "int (length (take ?a p)) = startOffset d" using d ab by simp
    ultimately show "inRange (take ?a p) e" unfolding inRange_def by linarith
  qed
  have tail: "sorted (map (\<lambda>e. - startOffset e) ds)" "nonOverlapping ds" "\<forall>e\<in>set ds. validEdit e"
    using Cons.prems(1-3) by simp_all
  have "splice p d = take ?a p @ (replacement d @ drop ?b p)"
    using d by (simp add: splice_take_drop)
  then have "foldl splice p (d # ds) = foldl splice (take ?a p) ds @ replacement d @ drop ?b p"
    using foldl_splice_append [OF tail rest] by simp
  also have "foldl splice (take ?a p) ds = replaceRanges (take ?a p) 0 (rev ds)"
    using tail rest by (rule Cons.IH)
  also have "replaceRanges (take ?a p) 0 (rev ds) @ replacement d @ drop ?b p =
             replaceRanges p 0 (rev ds @ [d])"
  proof (rule replaceRanges_snoc [symmetric])
    show "\<forall>x\<in>set (rev ds). startOffset x \<le> endOffset x \<and> endOffset x \<le> startOffset d"
      using left tail(3) by (auto simp: validEdit_def)
    show "0 \<le> nat (startOffset d)" by simp
  qed
  finally show ?case by simp
qed

lemma applyTextEdits_replaceRanges:
  assumes "\<forall>e\<in>set es. validEdit e" and "nonOverlapping es" and "\<forall>e\<in>set es. inRange text e"
  shows "applyTextEdits text es = replaceRanges text 0 (rev (sortByStartDesc es))"
proof -
  have "applyTextEdits text es = foldl splice text (sortByStartDesc es)"
    using assms(1,2) by (simp add: applyTextEdits_applied appliedEdits_nonOverlapping)
  also have "\<dots> = replaceRanges text 0 (rev (sortByStartDesc es))"
  proof (rule foldl_splice_replaceRanges)
    show "sorted (map (\<lambda>e. - startOffset e) (sortByStartDesc es))"
      by (rule sortByStartDesc_sorted_keys)
    show "nonOverlapping (sortByStartDesc es)"
      using assms(2) by (simp add: nonOverlapping_sortByStartDesc)
    show "\<forall>e\<in>set (sortByStartDesc es). validEdit e"
      using assms(1) by (simp add: sortByStartDesc_set)
    show "\<forall>e\<in>set (sortByStartDesc es). inRange text e"
      using assms(3) by (simp add: sortByStartDesc_set)
  qed
  finally show ?thesis .
qed


lemma applyTextEdits_unfold:
  "applyTextEdits text edits = fst (foldl applyStep (text, None) (sortByStartDesc edits))"
  by (simp add: applyTextEdits_def sortByStartDesc_def)

lemma applyStep_first:
  "applyStep (output, None) e =
     (slice output 0 (startOffset e) @ replacement e @ sliceFrom output (endOffset e),
      Some (startOffset e))"
  by (simp add: applyStep_def exceeds_def splice_def)

lemma applyStep_skip: "endOffset e > l \<Longrightarrow> applyStep (output, Some l) e = (output, Some l)"
  by (simp add: applyStep_def exceeds_def)

lemma applyStep_splice:
  "endOffset e \<le> l \<Longrightarrow>
   applyStep (output, Some l) e =
     (slice output 0 (startOffset e) @ replacement e @ sliceFrom output (endOffset e),
      Some (startOffset e))"
  by (simp add: applyStep_def exceeds_def splice_def)

lemma sort_editA_editB:
  "sortByStartDesc [editA, editB] = [editB, editA]" "sortByStartDesc [editB, editA] = [editB, editA]"
  by (simp_all add: sortByStartDesc_def editA_def editB_def)

lemma applied_editA_editB: "appliedEdits None [editB, editA] = [editB]"
  by (simp add: exceeds_def editA_def editB_def)

lemma splice_editB: "splice text editB = take 3 text @ ''B'' @ drop 8 text"
  by (simp add: splice_take_drop editB_def)

text \<open>
  C2. \<open>applyTextEdits\<close> visits the edits in descending order of \<open>startOffset\<close> (a
  reordering of the input that keeps edits of equal \<open>startOffset\<close> in input order),
  starting with \<open>lastStart\<close> at \<open>+\<infinity>\<close> (\<open>None\<close>): an edit
  whose \<open>endOffset\<close> is greater than \<open>lastStart\<close> leaves output and \<open>lastStart\<close> as they
  are, every other edit is spliced into its range and sets \<open>lastStart\<close> to its
  \<open>startOffset\<close>; so the result is the text with exactly the edits of \<open>appliedEdits\<close>
  spliced, which are some of the edits in the same order. For the edits \<open>{0,5,"A"}\<close> and
  \<open>{3,8,"B"}\<close>, in either input order, the one applied is \<open>{3,8,"B"}\<close>, and the
  result is the first three code units of the text, then \<open>B\<close>, then what follows the
  first eight, for a text of any length.
\<close>

theorem applyTextEdits_overlap_policy:
  "sorted_wrt (\<lambda>a b. startOffset a \<ge> startOffset b) (sortByStartDesc edits)
   \<and> mset (sortByStartDesc edits) = mset edits
   \<and> filter (\<lambda>e. startOffset e = k) (sortByStartDesc edits)
       = filter (\<lambda>e. startOffset e = k) edits
   \<and> applyTextEdits text edits = fst (foldl applyStep (text, None) (sortByStartDesc edits))
   \<and> applyStep (output, None) e =
       (slice output 0 (startOffset e) @ replacement e @ sliceFrom output (endOffset e),
        Some (startOffset e))
   \<and> (endOffset e > l \<longrightarrow> applyStep (output, Some l) e = (output, Some l))
   \<and> (endOffset e \<le> l \<longrightarrow>
        applyStep (output, Some l) e =
          (slice output 0 (startOffset e) @ replacement e @ sliceFrom output (endOffset e),
           Some (startOffset e)))
   \<and> applyTextEdits text edits = foldl splice text (appliedEdits None (sortByStartDesc edits))
   \<and> subseq (appliedEdits None (sortByStartDesc edits)) (sortByStartDesc edits)
   \<and> appliedEdits None (sortByStartDesc [editA, editB]) = [editB]
   \<and> appliedEdits None (sortByStartDesc [editB, editA]) = [editB]
   \<and> applyTextEdits text [editA, editB] = take 3 text @ ''B'' @ drop 8 text
   \<and> applyTextEdits text [editB, editA] = take 3 text @ ''B'' @ drop 8 text"
proof (intro conjI)
  show "sorted_wrt (\<lambda>a b. startOffset a \<ge> startOffset b) (sortByStartDesc edits)"
    by (rule sortByStartDesc_sorted)
  show "mset (sortByStartDesc edits) = mset edits"
    by (rule sortByStartDesc_mset)
  show "filter (\<lambda>e. startOffset e = k) (sortByStartDesc edits)
       = filter (\<lambda>e. startOffset e = k) edits"
    by (rule sortByStartDesc_stable)
  show "applyTextEdits text edits = fst (foldl applyStep (text, None) (sortByStartDesc edits))"
    by (rule applyTextEdits_unfold)
  show "applyStep (output, None) e =
       (slice output 0 (startOffset e) @ replacement e @ sliceFrom output (endOffset e),
        Some (startOffset e))"
    by (rule applyStep_first)
  show "endOffset e > l \<longrightarrow> applyStep (output, Some l) e = (output, Some l)"
    by (simp add: applyStep_skip)
  show "endOffset e \<le> l \<longrightarrow>
        applyStep (output, Some l) e =
          (slice output 0 (startOffset e) @ replacement e @ sliceFrom output (endOffset e),
           Some (startOffset e))"
    by (simp add: applyStep_splice)
  show "applyTextEdits text edits = foldl splice text (appliedEdits None (sortByStartDesc edits))"
    by (rule applyTextEdits_applied)
  show "subseq (appliedEdits None (sortByStartDesc edits)) (sortByStartDesc edits)"
    by (rule appliedEdits_sublist)
  show "appliedEdits None (sortByStartDesc [editA, editB]) = [editB]"
    by (simp only: sort_editA_editB applied_editA_editB)
  show "appliedEdits None (sortByStartDesc [editB, editA]) = [editB]"
    by (simp only: sort_editA_editB applied_editA_editB)
  show "applyTextEdits text [editA, editB] = take 3 text @ ''B'' @ drop 8 text"
    by (simp only: applyTextEdits_applied sort_editA_editB applied_editA_editB foldl.simps splice_editB)
  show "applyTextEdits text [editB, editA] = take 3 text @ ''B'' @ drop 8 text"
    by (simp only: applyTextEdits_applied sort_editA_editB applied_editA_editB foldl.simps splice_editB)
qed

theorem applyTextEdits_overlap_policy_witness:
  "endOffset editA > 3
   \<and> applyStep (''012B89'', Some 3) editA = (''012B89'', Some 3)
   \<and> endOffset editB \<le> 8
   \<and> applyStep (''0123456789'', Some 8) editB = (''012B89'', Some 3)
   \<and> applyTextEdits ''0123456789'' [editA, editB] = ''012B89''
   \<and> applyTextEdits ''0123'' [editB, editA] = ''012B''"
proof -
  note skip = applyTextEdits_overlap_policy [where ?edits = "[editA, editB]"
      and ?text = "''0123456789''" and ?output = "''012B89''" and ?e = editA and ?l = 3]
  note take = applyTextEdits_overlap_policy [where ?edits = "[editA, editB]"
      and ?text = "''0123''" and ?output = "''0123456789''" and ?e = editB and ?l = 8]
  have a: "endOffset editA > 3" by (simp add: editA_def)
  have b: "endOffset editB \<le> 8" by (simp add: editB_def)
  from skip a have c: "applyStep (''012B89'', Some 3) editA = (''012B89'', Some 3)" by blast
  from take b have "applyStep (''0123456789'', Some 8) editB =
      (slice ''0123456789'' 0 (startOffset editB) @ replacement editB
         @ sliceFrom ''0123456789'' (endOffset editB), Some (startOffset editB))" by blast
  then have d: "applyStep (''0123456789'', Some 8) editB = (''012B89'', Some 3)"
    by (simp add: editB_def slice_def sliceFrom_def relativeIndex_def)
  from skip have "applyTextEdits ''0123456789'' [editA, editB] =
      take 3 ''0123456789'' @ ''B'' @ drop 8 ''0123456789''" by blast
  then have e: "applyTextEdits ''0123456789'' [editA, editB] = ''012B89''" by simp
  from take have "applyTextEdits ''0123'' [editB, editA] = take 3 ''0123'' @ ''B'' @ drop 8 ''0123''"
    by blast
  then have f: "applyTextEdits ''0123'' [editB, editA] = ''012B''" by simp
  from a b c d e f show ?thesis by blast
qed


lemma sort_editX_editY:
  "sortByStartDesc [editX, editY] = [editY, editX]" "sortByStartDesc [editY, editX] = [editY, editX]"
  by (simp_all add: sortByStartDesc_def editX_def editY_def)

lemma apply_editX_editY:
  "applyTextEdits ''a[16px]b[8px]c'' [editX, editY] = ''aXbYc''"
  "applyTextEdits ''a[16px]b[8px]c'' [editY, editX] = ''aXbYc''"
  unfolding applyTextEdits_applied sort_editX_editY
  by (simp_all add: exceeds_def splice_take_drop editX_def editY_def)

text \<open>
  C3. For edits with \<open>startOffset < endOffset\<close> of which no two overlap, in whatever
  order the list has them: the loop skips none, the result is the same for every
  reordering of the list, it is the successive splices in descending order of
  \<open>startOffset\<close>, and, when the ranges lie inside the text, it is the text with every
  range replaced by its replacement at once. On \<open>a[16px]b[8px]c\<close> with \<open>[16px]\<close> to be
  replaced by \<open>X\<close> and \<open>[8px]\<close> by \<open>Y\<close> the result is \<open>aXbYc\<close> in both orders.
\<close>

theorem applyTextEdits_order_independent:
  assumes "\<forall>e\<in>set edits. validEdit e" and "nonOverlapping edits" and "mset edits' = mset edits"
  shows "appliedEdits None (sortByStartDesc edits) = sortByStartDesc edits
     \<and> mset (sortByStartDesc edits) = mset edits
     \<and> applyTextEdits text edits' = applyTextEdits text edits
     \<and> applyTextEdits text edits = foldl splice text (sortByStartDesc edits)
     \<and> ((\<forall>e\<in>set edits. inRange text e) \<longrightarrow>
          applyTextEdits text edits = replaceRanges text 0 (rev (sortByStartDesc edits)))
     \<and> applyTextEdits ''a[16px]b[8px]c'' [editX, editY] = ''aXbYc''
     \<and> applyTextEdits ''a[16px]b[8px]c'' [editY, editX] = ''aXbYc''"
proof (intro conjI)
  show all: "appliedEdits None (sortByStartDesc edits) = sortByStartDesc edits"
    using assms(1,2) by (rule appliedEdits_nonOverlapping)
  show "mset (sortByStartDesc edits) = mset edits"
    by (rule sortByStartDesc_mset)
  show "applyTextEdits text edits' = applyTextEdits text edits"
    using sortByStartDesc_permutation [OF assms] by (simp add: applyTextEdits_applied)
  show "applyTextEdits text edits = foldl splice text (sortByStartDesc edits)"
    using all by (simp add: applyTextEdits_applied)
  show "(\<forall>e\<in>set edits. inRange text e) \<longrightarrow>
          applyTextEdits text edits = replaceRanges text 0 (rev (sortByStartDesc edits))"
    using assms(1,2) by (simp add: applyTextEdits_replaceRanges)
  show "applyTextEdits ''a[16px]b[8px]c'' [editX, editY] = ''aXbYc''"
    by (rule apply_editX_editY)
  show "applyTextEdits ''a[16px]b[8px]c'' [editY, editX] = ''aXbYc''"
    by (rule apply_editX_editY)
qed

theorem applyTextEdits_order_independent_witness:
  "validEdit editX \<and> validEdit editY \<and> nonOverlapping [editX, editY]
   \<and> mset [editY, editX] = mset [editX, editY]
   \<and> inRange ''a[16px]b[8px]c'' editX \<and> inRange ''a[16px]b[8px]c'' editY
   \<and> appliedEdits None (sortByStartDesc [editX, editY]) = [editY, editX]
   \<and> applyTextEdits ''a[16px]b[8px]c'' [editY, editX] = applyTextEdits ''a[16px]b[8px]c'' [editX, editY]
   \<and> applyTextEdits ''a[16px]b[8px]c'' [editX, editY] = replaceRanges ''a[16px]b[8px]c'' 0 [editX, editY]
   \<and> replaceRanges ''a[16px]b[8px]c'' 0 [editX, editY] = ''aXbYc''"
proof -
  have v: "\<forall>e\<in>set [editX, editY]. validEdit e"
    by (simp add: validEdit_def editX_def editY_def)
  have n: "nonOverlapping [editX, editY]"
    by (simp add: editsDisjoint_def editX_def editY_def)
  have m: "mset [editY, editX] = mset [editX, editY]" by simp
  have r: "\<forall>e\<in>set [editX, editY]. inRange ''a[16px]b[8px]c'' e"
    by (simp add: inRange_def editX_def editY_def)
  note inst = applyTextEdits_order_independent [OF v n m, of "''a[16px]b[8px]c''"]
  from inst have a: "appliedEdits None (sortByStartDesc [editX, editY]) = [editY, editX]"
    by (simp add: sort_editX_editY)
  from inst have b: "applyTextEdits ''a[16px]b[8px]c'' [editY, editX] =
      applyTextEdits ''a[16px]b[8px]c'' [editX, editY]" by blast
  from inst r have "applyTextEdits ''a[16px]b[8px]c'' [editX, editY] =
      replaceRanges ''a[16px]b[8px]c'' 0 (rev (sortByStartDesc [editX, editY]))" by blast
  then have c: "applyTextEdits ''a[16px]b[8px]c'' [editX, editY] =
      replaceRanges ''a[16px]b[8px]c'' 0 [editX, editY]" by (simp add: sort_editX_editY)
  from inst have "applyTextEdits ''a[16px]b[8px]c'' [editX, editY] = ''aXbYc''" by blast
  with c have d: "replaceRanges ''a[16px]b[8px]c'' 0 [editX, editY] = ''aXbYc''"
    by (simp only:)
  from v n m r a b c d show ?thesis by simp
qed

section \<open>Properties of the canonicalizer\<close>

lemma canonicalizeDocument_unsupported:
  "inferLanguageId rt path = None \<Longrightarrow>
   canonicalizeDocument rt text path ds rootDir options = Inr text"
  by (simp add: canonicalizeDocument_def)

lemma canonicalizeDocument_supported:
  "inferLanguageId rt path = Some langId \<Longrightarrow>
   canonicalizeDocument rt text path ds rootDir options =
     (case editsFor rt text path ds rootDir options langId of
        Inl err \<Rightarrow> Inl err
      | Inr edits \<Rightarrow> if edits = [] then Inr text else Inr (applyTextEdits text edits))"
  by (simp add: canonicalizeDocument_def editsFor_def Let_def split: sum.split)

lemma editsFor_diagnosticsFor:
  "editsFor rt text path ds rootDir options langId =
     (case diagnosticsFor rt text path ds rootDir options langId of
        Inl err \<Rightarrow> Inl err
      | Inr diagnostics \<Rightarrow>
          Inr (dedupeEdits (rawEdits rt (createTextDocument rt path langId text) diagnostics)))"
  by (simp add: editsFor_def diagnosticsFor_def buildCanonicalEdits_def)

lemma dedupeEdits_Nil: "dedupeEdits [] = []"
  by (simp add: dedupeEdits_def)

text \<open>
  C4. With an empty list of edits \<open>applyTextEdits\<close> returns the text it was given, and
  \<open>canonicalizeDocument\<close> returns its input text whenever the analyzer reports no
  diagnostics, whenever no edit is built from what it reports, and for a file whose
  extension has no language id.
\<close>

theorem no_edits_no_change:
  "applyTextEdits text [] = text
   \<and> (inferLanguageId rt path = None \<longrightarrow>
        canonicalizeDocument rt text path ds rootDir options = Inr text)
   \<and> (inferLanguageId rt path = Some langId
        \<and> diagnosticsFor rt text path ds rootDir options langId = Inr [] \<longrightarrow>
        canonicalizeDocument rt text path ds rootDir options = Inr text)
   \<and> (inferLanguageId rt path = Some langId
        \<and> editsFor rt text path ds rootDir options langId = Inr [] \<longrightarrow>
        canonicalizeDocument rt text path ds rootDir options = Inr text)"
  by (simp add: applyTextEdits_def canonicalizeDocument_unsupported
        canonicalizeDocument_supported editsFor_diagnosticsFor dedupeEdits_Nil rawEdits_def)

lemma example_language:
  "inferLanguageId exampleRuntime ''/app/a.html'' = Some ''html''"
  "inferLanguageId exampleRuntime ''/app/a.png'' = None"
  by (simp_all add: inferLanguageId_def exampleRuntime_def extnameOf_def baseName_def
        lowerChar_def)

theorem no_edits_no_change_witness:
  "inferLanguageId exampleRuntime ''/app/a.png'' = None
   \<and> canonicalizeDocument exampleRuntime ''mt-[16px]'' ''/app/a.png'' spacingDesignSystem ''/app''
         \<lparr>optRootFontSize = None\<rparr> = Inr ''mt-[16px]''
   \<and> inferLanguageId exampleRuntime ''/app/a.html'' = Some ''html''
   \<and> diagnosticsFor exampleRuntime ''mt-4'' ''/app/a.html'' spacingDesignSystem ''/app''
         \<lparr>optRootFontSize = None\<rparr> ''html'' = Inr []
   \<and> editsFor exampleRuntime ''mt-4'' ''/app/a.html'' spacingDesignSystem ''/app''
         \<lparr>optRootFontSize = None\<rparr> ''html'' = Inr []
   \<and> canonicalizeDocument exampleRuntime ''mt-4'' ''/app/a.html'' spacingDesignSystem ''/app''
         \<lparr>optRootFontSize = None\<rparr> = Inr ''mt-4''"
proof -
  have d: "diagnosticsFor exampleRuntime ''mt-4'' ''/app/a.html'' spacingDesignSystem ''/app''
         \<lparr>optRootFontSize = None\<rparr> ''html'' = Inr []"
    by (simp add: diagnosticsFor_def exampleRuntime_def scriptedAnalyzer_def
          exampleAnswers_def createLanguageServiceState_def createTextDocument_def)
  then have e: "editsFor exampleRuntime ''mt-4'' ''/app/a.html'' spacingDesignSystem ''/app''
         \<lparr>optRootFontSize = None\<rparr> ''html'' = Inr []"
    by (simp add: editsFor_diagnosticsFor dedupeEdits_Nil rawEdits_def)
  from no_edits_no_change [of "''mt-[16px]''" exampleRuntime "''/app/a.png''" spacingDesignSystem
      "''/app''" "\<lparr>optRootFontSize = None\<rparr>"] example_language(2)
  have a: "canonicalizeDocument exampleRuntime ''mt-[16px]'' ''/app/a.png'' spacingDesignSystem
      ''/app'' \<lparr>optRootFontSize = None\<rparr> = Inr ''mt-[16px]''" by blast
  from no_edits_no_change [of "''mt-4''" exampleRuntime "''/app/a.html''" spacingDesignSystem
      "''/app''" "\<lparr>optRootFontSize = None\<rparr>" "''html''"] example_language(1) d
  have b: "canonicalizeDocument exampleRuntime ''mt-4'' ''/app/a.html'' spacingDesignSystem
      ''/app'' \<lparr>optRootFontSize = None\<rparr> = Inr ''mt-4''" by blast
  from example_language a b d e show ?thesis by blast
qed


section \<open>Properties of de-duplication\<close>

lemma digitChar_cases:
  "d < 10 \<Longrightarrow>
   d = 0 \<or> d = 1 \<or> d = 2 \<or> d = 3 \<or> d = 4 \<or> d = 5 \<or> d = 6 \<or> d = 7 \<or> d = 8 \<or> d = (9::nat)"
  by arith

lemma digitChar_inj: "d < 10 \<Longrightarrow> d' < 10 \<Longrightarrow> digitChar d = digitChar d' \<Longrightarrow> d = d'"
  using digitChar_cases [of d] digitChar_cases [of d']
  by (auto simp: digitChar_def)

lemma digitChar_not_sep: "d < 10 \<Longrightarrow> digitChar d \<noteq> CHR '':'' \<and> digitChar d \<noteq> CHR ''-''"
  using digitChar_cases [of d] by (auto simp: digitChar_def)

lemma natToString_nonempty: "natToString n \<noteq> []"
  by (subst natToString.simps) simp

lemma natToString_chars: "c \<in> set (natToString n) \<Longrightarrow> c \<noteq> CHR '':'' \<and> c \<noteq> CHR ''-''"
proof (induction n rule: natToString.induct)
  case (1 n)
  show ?case
  proof (cases "n < 10")
    case True
    with "1.prems" have "c = digitChar n" by (simp add: natToString.simps [of n])
    with True show ?thesis by (simp add: digitChar_not_sep)
  next
    case False
    with "1.prems" have "c = digitChar (n mod 10) \<or> c \<in> set (natToString (n div 10))"
      by (simp add: natToString.simps [of n])
    then show ?thesis
    proof
      assume "c = digitChar (n mod 10)"
      then show ?thesis by (simp add: digitChar_not_sep)
    next
      assume "c \<in> set (natToString (n div 10))"
      with False show ?thesis by (rule "1.IH")
    qed
  qed
qed

text \<open>Two numbers print alike only when they are equal.\<close>

lemma natToString_inj: "natToString n = natToString m \<Longrightarrow> n = m"
proof (induction n arbitrary: m rule: natToString.induct)
  case (1 n)
  show ?case
  proof (cases "n < 10")
    case n: True
    show ?thesis
    proof (cases "m < 10")
      case True
      with n "1.prems" show ?thesis
        by (simp add: natToString.simps [of n] natToString.simps [of m] digitChar_inj)
    next
      case False
      with n "1.prems" show ?thesis
        using natToString_nonempty [of "m div 10"]
        by (simp add: natToString.simps [of n] natToString.simps [of m])
    qed
  next
    case n: False
    show ?thesis
    proof (cases "m < 10")
      case True
      with n "1.prems" show ?thesis
        using natToString_nonempty [of "n div 10"]
        by (simp add: natToString.simps [of n] natToString.simps [of m])
    next
      case False
      with n "1.prems" have eq: "natToString (n div 10) = natToString (m div 10)"
        and d: "digitChar (n mod 10) = digitChar (m mod 10)"
        by (simp_all add: natToString.simps [of n] natToString.simps [of m])
      from "1.IH" [OF n eq] have "n div 10 = m div 10" .
      moreover from d have "n mod 10 = m mod 10" by (intro digitChar_inj) simp_all
      ultimately show ?thesis by (metis div_mult_mod_eq)
    qed
  qed
qed

lemma natToString_hd: "hd (natToString n) \<noteq> CHR ''-''"
  using natToString_chars [of "hd (natToString n)" n] natToString_nonempty [of n]
  by (metis hd_in_set)

lemma numberToString_inj: "numberToString i = numberToString j \<Longrightarrow> i = j"
proof -
  assume eq: "numberToString i = numberToString j"
  have neg: "\<And>k. (hd (numberToString k) = CHR ''-'') = (k < 0)"
    by (simp add: numberToString_def natToString_hd)
  from eq neg [of i] neg [of j] have same: "(i < 0) = (j < 0)" by simp
  show "i = j"
  proof (cases "i < 0")
    case True
    with same eq have "natToString (nat (- i)) = natToString (nat (- j))"
      by (simp add: numberToString_def)
    then have "nat (- i) = nat (- j)" by (rule natToString_inj)
    with True same show ?thesis by simp
  next
    case False
    with same eq have "natToString (nat i) = natToString (nat j)"
      by (simp add: numberToString_def)
    then have "nat i = nat j" by (rule natToString_inj)
    with False same show ?thesis by simp
  qed
qed

lemma numberToString_no_colon: "CHR '':'' \<notin> set (numberToString i)"
  using natToString_chars by (auto simp: numberToString_def)

lemma takeWhile_until: "c \<notin> set xs \<Longrightarrow> takeWhile (\<lambda>x. x \<noteq> c) (xs @ c # ys) = xs"
  by (induction xs) auto

text \<open>The key of an edit stands for its pair of offsets.\<close>

lemma editKey_eq_iff: "editKey a = editKey b \<longleftrightarrow> rangeOf a = rangeOf b"
proof
  assume eq: "editKey a = editKey b"
  have tw: "\<And>e. takeWhile (\<lambda>c. c \<noteq> CHR '':'') (editKey e) = numberToString (startOffset e)"
    by (simp add: editKey_def takeWhile_until numberToString_no_colon)
  from eq tw [of a] tw [of b]
  have s: "numberToString (startOffset a) = numberToString (startOffset b)" by simp
  with eq have "numberToString (endOffset a) = numberToString (endOffset b)"
    by (simp add: editKey_def)
  with s show "rangeOf a = rangeOf b"
    by (simp add: rangeOf_def numberToString_inj)
next
  assume "rangeOf a = rangeOf b"
  then show "editKey a = editKey b" by (simp add: rangeOf_def editKey_def)
qed

lemma foldl_dedupeStep_seen:
  "fst (foldl dedupeStep (seen, res) es) = seen \<union> editKey ` set es"
  by (induction es arbitrary: seen res) (auto simp: dedupeStep_def Let_def)

lemma dedupeEdits_snoc:
  "dedupeEdits (es @ [e]) =
     dedupeEdits es @ (if rangeOf e \<in> rangeOf ` set es then [] else [e])"
proof -
  have "fst (foldl dedupeStep ({}, []) es) = editKey ` set es"
    by (simp add: foldl_dedupeStep_seen)
  moreover have "(editKey e \<in> editKey ` set es) = (rangeOf e \<in> rangeOf ` set es)"
    by (auto simp: editKey_eq_iff image_iff)
  ultimately show ?thesis
    by (simp add: dedupeEdits_def dedupeStep_def Let_def)
qed

lemma firstOccurrences_snoc:
  "firstOccurrences (es @ [e]) =
     firstOccurrences es @ (if rangeOf e \<in> rangeOf ` set es then [] else [e])"
proof -
  have a: "[(es @ [e]) ! i. i \<leftarrow> [0..<length es],
              \<forall>j<i. rangeOf ((es @ [e]) ! j) \<noteq> rangeOf ((es @ [e]) ! i)]
        = [es ! i. i \<leftarrow> [0..<length es], \<forall>j<i. rangeOf (es ! j) \<noteq> rangeOf (es ! i)]"
    by (intro arg_cong [where f = concat] map_cong) (auto simp: nth_append)
  have b: "(\<forall>j<length es. rangeOf ((es @ [e]) ! j) \<noteq> rangeOf e) = (rangeOf e \<notin> rangeOf ` set es)"
  proof
    assume h: "\<forall>j<length es. rangeOf ((es @ [e]) ! j) \<noteq> rangeOf e"
    show "rangeOf e \<notin> rangeOf ` set es"
    proof
      assume "rangeOf e \<in> rangeOf ` set es"
      then obtain x where "x \<in> set es" "rangeOf e = rangeOf x" by blast
      then obtain j where "j < length es" "es ! j = x" by (auto simp: in_set_conv_nth)
      with h \<open>rangeOf e = rangeOf x\<close> show False by (auto simp: nth_append)
    qed
  next
    assume h: "rangeOf e \<notin> rangeOf ` set es"
    show "\<forall>j<length es. rangeOf ((es @ [e]) ! j) \<noteq> rangeOf e"
    proof (intro allI impI)
      fix j assume "j < length es"
      then have "rangeOf (es ! j) \<in> rangeOf ` set es" by simp
      with h have "rangeOf (es ! j) \<noteq> rangeOf e" by metis
      with \<open>j < length es\<close> show "rangeOf ((es @ [e]) ! j) \<noteq> rangeOf e"
        by (simp add: nth_append)
    qed
  qed
  show ?thesis
    unfolding firstOccurrences_def using a b by simp
qed

lemma dedupeEdits_firstOccurrences: "dedupeEdits es = firstOccurrences es"
proof (induction es rule: rev_induct)
  case Nil
  show ?case by (simp add: dedupeEdits_def firstOccurrences_def)
next
  case (snoc e es)
  then show ?case by (simp only: dedupeEdits_snoc firstOccurrences_snoc)
qed

lemma dedupeEdits_ranges: "rangeOf ` set (dedupeEdits es) = rangeOf ` set es"
  by (induction es rule: rev_induct) (auto simp: dedupeEdits_Nil dedupeEdits_snoc)


lemma dedupeEdits_distinct: "distinct (map rangeOf (dedupeEdits es))"
proof (induction es rule: rev_induct)
  case Nil
  show ?case by (simp add: dedupeEdits_Nil)
next
  case (snoc e es)
  then show ?case
    using dedupeEdits_ranges [of es] by (auto simp: dedupeEdits_snoc)
qed

lemma dedupeEdits_subseq: "subseq (dedupeEdits es) es"
proof (induction es rule: rev_induct)
  case Nil
  show ?case by (simp add: dedupeEdits_Nil)
next
  case (snoc e es)
  have "subseq (if rangeOf e \<in> rangeOf ` set es then [] else [e]) [e]" by simp
  with snoc show ?case
    unfolding dedupeEdits_snoc by (rule list_emb_append_mono)
qed

lemma dedupeEdits_pair:
  "dedupeEdits [a, b] = (if rangeOf a = rangeOf b then [a] else [a, b])"
  using dedupeEdits_snoc [of "[a]" b] dedupeEdits_snoc [of "[]" a]
  by (auto simp: dedupeEdits_Nil)


text \<open>
  C5. \<open>dedupeEdits\<close> keeps an edit exactly when no earlier edit of the list has the same
  pair \<open>(startOffset, endOffset)\<close>: the result lists, in their order, the first edit of
  every pair of offsets that occurs, once each. Of two edits with the same pair the first
  stays; and when the analyzer reports two diagnostics that give edits of the same range,
  \<open>buildCanonicalEdits\<close> returns the edit of the first alone, with the first suggestion
  of the first diagnostic.
\<close>

theorem dedupeEdits_first_wins:
  "dedupeEdits edits = firstOccurrences edits
   \<and> subseq (dedupeEdits edits) edits
   \<and> distinct (map rangeOf (dedupeEdits edits))
   \<and> rangeOf ` set (dedupeEdits edits) = rangeOf ` set edits
   \<and> (rangeOf a = rangeOf b \<longrightarrow> dedupeEdits [a, b] = [a])
   \<and> (rangeOf a \<noteq> rangeOf b \<longrightarrow> dedupeEdits [a, b] = [a, b])
   \<and> (doValidate rt state document [SuggestCanonicalClasses] = Inr [d1, d2]
        \<and> diagnosticEdit rt document d1 = Some e1
        \<and> diagnosticEdit rt document d2 = Some e2
        \<and> rangeOf e1 = rangeOf e2 \<longrightarrow>
        buildCanonicalEdits rt state document = Inr [e1]
        \<and> firstSuggestion d1 = Some (replacement e1))"
proof (intro conjI)
  show "dedupeEdits edits = firstOccurrences edits"
    by (rule dedupeEdits_firstOccurrences)
  show "subseq (dedupeEdits edits) edits"
    by (rule dedupeEdits_subseq)
  show "distinct (map rangeOf (dedupeEdits edits))"
    by (rule dedupeEdits_distinct)
  show "rangeOf ` set (dedupeEdits edits) = rangeOf ` set edits"
    by (rule dedupeEdits_ranges)
  show "rangeOf a = rangeOf b \<longrightarrow> dedupeEdits [a, b] = [a]"
    by (simp add: dedupeEdits_pair)
  show "rangeOf a \<noteq> rangeOf b \<longrightarrow> dedupeEdits [a, b] = [a, b]"
    by (simp add: dedupeEdits_pair)
  show "doValidate rt state document [SuggestCanonicalClasses] = Inr [d1, d2]
        \<and> diagnosticEdit rt document d1 = Some e1
        \<and> diagnosticEdit rt document d2 = Some e2
        \<and> rangeOf e1 = rangeOf e2 \<longrightarrow>
        buildCanonicalEdits rt state document = Inr [e1]
        \<and> firstSuggestion d1 = Some (replacement e1)"
  proof (intro impI, elim conjE)
    assume v: "doValidate rt state document [SuggestCanonicalClasses] = Inr [d1, d2]"
      and e1: "diagnosticEdit rt document d1 = Some e1"
      and e2: "diagnosticEdit rt document d2 = Some e2"
      and r: "rangeOf e1 = rangeOf e2"
    from e1 e2 have "rawEdits rt document [d1, d2] = [e1, e2]"
      by (simp add: rawEdits_def pushEdit_def)
    with v r have "buildCanonicalEdits rt state document = Inr [e1]"
      by (simp add: buildCanonicalEdits_def dedupeEdits_pair)
    moreover from e1 have "firstSuggestion d1 = Some (replacement e1)"
      by (auto simp: diagnosticEdit_def Let_def split: if_splits option.splits)
    ultimately show "buildCanonicalEdits rt state document = Inr [e1]
        \<and> firstSuggestion d1 = Some (replacement e1)" by simp
  qed
qed

lemma example_offsets:
  "offsetAt (reportingRuntime ds) document pos = int (character pos)"
  "getText (reportingRuntime ds) document r =
     slice (content document) (int (character (rangeStart r))) (int (character (rangeEnd r)))"
  "doValidate (reportingRuntime ds) state document kinds = Inr ds"
  by (simp_all add: reportingRuntime_def exampleRuntime_def)

lemma example_diagnosticEdit:
  "a < b \<Longrightarrow> s \<noteq> [] \<Longrightarrow>
   diagnosticEdit (reportingRuntime ds) document (diagnosticAt a b (s # ss)) =
     Some \<lparr>startOffset = int a, endOffset = int b, replacement = s,
           original = slice (content document) (int a) (int b)\<rparr>"
  by (simp add: diagnosticEdit_def diagnosticAt_def isSuggestCanonicalClasses_def
        firstSuggestion_def example_offsets Let_def)

theorem dedupeEdits_first_wins_witness:
  "firstOccurrences [editA, editB, editA\<lparr>replacement := ''C''\<rparr>] = [editA, editB]
   \<and> rangeOf editA = rangeOf (editA\<lparr>replacement := ''C''\<rparr>)
   \<and> dedupeEdits [editA, editA\<lparr>replacement := ''C''\<rparr>] = [editA]
   \<and> rangeOf editA \<noteq> rangeOf editB
   \<and> dedupeEdits [editA, editB] = [editA, editB]
   \<and> buildCanonicalEdits (reportingRuntime [diagnosticAt 0 3 [''P''], diagnosticAt 0 3 [''Q'']])
        exampleState
        (exampleDocument ''abcdef'')
      = Inr [\<lparr>startOffset = 0, endOffset = 3, replacement = ''P'', original = ''abc''\<rparr>]"
proof -
  let ?rt = "reportingRuntime [diagnosticAt 0 3 [''P''], diagnosticAt 0 3 [''Q'']]"
  let ?st = exampleState
  let ?doc = "exampleDocument ''abcdef''"
  let ?e1 = "\<lparr>startOffset = 0, endOffset = 3, replacement = ''P'', original = ''abc''\<rparr>"
  let ?e2 = "\<lparr>startOffset = 0, endOffset = 3, replacement = ''Q'', original = ''abc''\<rparr>"
  have r1: "rangeOf editA = rangeOf (editA\<lparr>replacement := ''C''\<rparr>)"
    by (simp add: rangeOf_def)
  have r2: "rangeOf editA \<noteq> rangeOf editB"
    by (simp add: rangeOf_def editA_def editB_def)
  have f: "firstOccurrences [editA, editB, editA\<lparr>replacement := ''C''\<rparr>] = [editA, editB]"
    using r1 r2 by (simp add: firstOccurrences_def upt_rec [of 0] upt_rec [of 1] upt_rec [of 2]
        upt_rec [of 3] All_less_Suc2)
  note same = dedupeEdits_first_wins [of "[editA, editA\<lparr>replacement := ''C''\<rparr>]" editA
      "editA\<lparr>replacement := ''C''\<rparr>" ?rt ?st ?doc "diagnosticAt 0 3 [''P'']"
      "diagnosticAt 0 3 [''Q'']" ?e1 ?e2]
  note other = dedupeEdits_first_wins [of "[editA, editB]" editA editB]
  from same r1 have a: "dedupeEdits [editA, editA\<lparr>replacement := ''C''\<rparr>] = [editA]" by blast
  from other r2 have b: "dedupeEdits [editA, editB] = [editA, editB]" by blast
  have v: "doValidate ?rt ?st ?doc [SuggestCanonicalClasses]
      = Inr [diagnosticAt 0 3 [''P''], diagnosticAt 0 3 [''Q'']]"
    by (simp add: example_offsets)
  have e1: "diagnosticEdit ?rt ?doc (diagnosticAt 0 3 [''P'']) = Some ?e1"
    by (simp add: example_diagnosticEdit exampleDocument_def createTextDocument_def slice_def relativeIndex_def)
  have e2: "diagnosticEdit ?rt ?doc (diagnosticAt 0 3 [''Q'']) = Some ?e2"
    by (simp add: example_diagnosticEdit exampleDocument_def createTextDocument_def slice_def relativeIndex_def)
  have r: "rangeOf ?e1 = rangeOf ?e2" by (simp add: rangeOf_def)
  from same v e1 e2 r have c: "buildCanonicalEdits ?rt ?st ?doc = Inr [?e1]" by blast
  from f r1 a r2 b c show ?thesis by simp
qed


section \<open>Properties of the translation of diagnostics into edits\<close>












section \<open>Properties of language detection\<close>

text \<open>
  C10. The filter of file discovery and the language dispatcher agree on every path,
  whatever \<open>path.extname\<close> and \<open>toLowerCase\<close> compute: \<open>isSupportedExtension\<close> holds
  exactly when \<open>inferLanguageId\<close> returns a language id.
\<close>

theorem supported_extension_iff_language_id:
  "isSupportedExtension rt path \<longleftrightarrow> inferLanguageId rt path \<noteq> None"
  by (simp add: isSupportedExtension_def inferLanguageId_def SUPPORTED_EXTENSIONS_def Let_def)

theorem supported_extension_iff_language_id_witness:
  "inferLanguageId exampleRuntime ''/app/Page.TSX'' = Some ''typescriptreact''
   \<and> isSupportedExtension exampleRuntime ''/app/Page.TSX''
   \<and> inferLanguageId exampleRuntime ''/app/a.png'' = None
   \<and> \<not> isSupportedExtension exampleRuntime ''/app/a.png''"
proof -
  have a: "inferLanguageId exampleRuntime ''/app/Page.TSX'' = Some ''typescriptreact''"
    by (simp add: inferLanguageId_def exampleRuntime_def extnameOf_def baseName_def lowerChar_def)
  with supported_extension_iff_language_id [of exampleRuntime "''/app/Page.TSX''"]
  have b: "isSupportedExtension exampleRuntime ''/app/Page.TSX''" by simp
  from supported_extension_iff_language_id [of exampleRuntime "''/app/a.png''"] example_language(2)
  have c: "\<not> isSupportedExtension exampleRuntime ''/app/a.png''" by simp
  from a b c example_language(2) show ?thesis by simp
qed


section \<open>Properties of the design-system cache\<close>

lemma getDesignSystem_cached:
  "designSystemCache s (cacheKeyOf rt rootDir css) = Some p \<Longrightarrow>
   getDesignSystem rt rootDir css s = (Some p, s)"
  by (simp add: getDesignSystem_def Let_def)

lemma getDesignSystem_fresh:
  "designSystemCache s (cacheKeyOf rt rootDir css) = None \<Longrightarrow>
   getDesignSystem rt rootDir css s =
     (Some (length (loadCalls s)),
      s\<lparr>designSystemCache :=
           (designSystemCache s)(cacheKeyOf rt rootDir css \<mapsto> length (loadCalls s)),
         loadCalls := loadCalls s @ [(rootDir, css)]\<rparr>)"
  by (simp add: getDesignSystem_def Let_def)

lemma getDesignSystem_result:
  assumes "getDesignSystem rt rootDir css s = (p, s')"
  shows "designSystemCache s' (cacheKeyOf rt rootDir css) = p \<and> (\<exists>n. p = Some n)"
proof (cases "designSystemCache s (cacheKeyOf rt rootDir css)")
  case None
  with assms show ?thesis by (auto simp: getDesignSystem_fresh)
next
  case (Some n)
  then have "getDesignSystem rt rootDir css s = (Some n, s)" by (rule getDesignSystem_cached)
  with assms have "p = Some n" "s' = s" by simp_all
  with Some show ?thesis by simp
qed

text \<open>An entry of the cache outlives every later call, and so do the loads of its key.\<close>

lemma getDesignSystem_keeps:
  assumes "designSystemCache s key = Some p"
  shows "designSystemCache (snd (getDesignSystem rt rootDir css s)) key = Some p
         \<and> loadsFor rt key (snd (getDesignSystem rt rootDir css s)) = loadsFor rt key s"
proof (cases "designSystemCache s (cacheKeyOf rt rootDir css)")
  case None
  with assms have "cacheKeyOf rt rootDir css \<noteq> key" by auto
  with None assms show ?thesis by (simp add: getDesignSystem_fresh loadsFor_def)
next
  case (Some n)
  with assms show ?thesis by (simp add: getDesignSystem_cached)
qed

lemma afterCalls_keeps:
  "designSystemCache s key = Some p \<Longrightarrow>
   designSystemCache (afterCalls rt calls s) key = Some p
   \<and> loadsFor rt key (afterCalls rt calls s) = loadsFor rt key s"
proof (induction calls arbitrary: s)
  case Nil
  then show ?case by (simp add: afterCalls_def)
next
  case (Cons c calls)
  from getDesignSystem_keeps [OF Cons.prems, of rt "fst c" "snd c"]
  have k: "designSystemCache (snd (getDesignSystem rt (fst c) (snd c) s)) key = Some p"
    and l: "loadsFor rt key (snd (getDesignSystem rt (fst c) (snd c) s)) = loadsFor rt key s"
    by simp_all
  from Cons.IH [OF k] l show ?case by (simp add: afterCalls_def)
qed

text \<open>
  C7. A first call of \<open>getDesignSystem\<close> returns a promise and leaves it in the cache;
  after any further calls, a second call with the same cache key returns that same
  promise and starts nothing: the loader state is as it was before the second call, and
  the loads started for the key are those that existed after the first call. When the key
  was not in the cache before the first call, these are the loads from before plus one,
  the one of the first call. Nothing here asks whether the promise has settled.
\<close>

theorem getDesignSystem_shares_pending_load:
  assumes "getDesignSystem rt rootDir css s = (p1, s1)"
    and "getDesignSystem rt rootDir' css' (afterCalls rt calls s1) = (p2, s2)"
    and "cacheKeyOf rt rootDir' css' = cacheKeyOf rt rootDir css"
  shows "p2 = p1 \<and> (\<exists>n. p1 = Some n)
     \<and> s2 = afterCalls rt calls s1
     \<and> loadsFor rt (cacheKeyOf rt rootDir css) s2 = loadsFor rt (cacheKeyOf rt rootDir css) s1
     \<and> (designSystemCache s (cacheKeyOf rt rootDir css) = None \<longrightarrow>
          p1 = Some (length (loadCalls s))
          \<and> loadsFor rt (cacheKeyOf rt rootDir css) s2 =
              loadsFor rt (cacheKeyOf rt rootDir css) s @ [(rootDir, css)])
     \<and> (designSystemCache s (cacheKeyOf rt rootDir css) \<noteq> None \<longrightarrow>
          loadsFor rt (cacheKeyOf rt rootDir css) s2 = loadsFor rt (cacheKeyOf rt rootDir css) s)"
proof -
  let ?key = "cacheKeyOf rt rootDir css"
  from getDesignSystem_result [OF assms(1)] obtain n where
    n: "p1 = Some n" "designSystemCache s1 ?key = Some n" by auto
  from afterCalls_keeps [OF n(2), of rt calls]
  have kept: "designSystemCache (afterCalls rt calls s1) ?key = Some n"
    and loads: "loadsFor rt ?key (afterCalls rt calls s1) = loadsFor rt ?key s1"
    by simp_all
  from kept assms(3) have "getDesignSystem rt rootDir' css' (afterCalls rt calls s1)
      = (Some n, afterCalls rt calls s1)"
    by (simp add: getDesignSystem_cached)
  with assms(2) have second: "p2 = Some n" "s2 = afterCalls rt calls s1" by simp_all
  have fresh: "designSystemCache s ?key = None \<longrightarrow>
          p1 = Some (length (loadCalls s))
          \<and> loadsFor rt ?key s2 = loadsFor rt ?key s @ [(rootDir, css)]"
  proof
    assume "designSystemCache s ?key = None"
    with assms(1) have "p1 = Some (length (loadCalls s))"
      and "loadCalls s1 = loadCalls s @ [(rootDir, css)]"
      by (auto simp: getDesignSystem_fresh)
    with second(2) loads
    show "p1 = Some (length (loadCalls s))
          \<and> loadsFor rt ?key s2 = loadsFor rt ?key s @ [(rootDir, css)]"
      by (simp add: loadsFor_def)
  qed
  have cached: "designSystemCache s ?key \<noteq> None \<longrightarrow> loadsFor rt ?key s2 = loadsFor rt ?key s"
  proof
    assume "designSystemCache s ?key \<noteq> None"
    then obtain m where "designSystemCache s ?key = Some m" by auto
    with assms(1) have "s1 = s" by (simp add: getDesignSystem_cached)
    with second(2) loads show "loadsFor rt ?key s2 = loadsFor rt ?key s" by simp
  qed
  from n(1) second loads fresh cached show ?thesis by simp
qed

theorem getDesignSystem_shares_pending_load_witness:
  "getDesignSystem exampleRuntime ''/app'' (Some ''./app.css'')
     \<lparr>designSystemCache = Map.empty, loadCalls = []\<rparr>
   = (Some 0, \<lparr>designSystemCache = [''/app/./app.css'' \<mapsto> 0],
               loadCalls = [(''/app'', Some ''./app.css'')]\<rparr>)
   \<and> fst (getDesignSystem exampleRuntime ''/app'' (Some ''./app.css'')
        (afterCalls exampleRuntime [(''/other'', None)]
           \<lparr>designSystemCache = [''/app/./app.css'' \<mapsto> 0],
             loadCalls = [(''/app'', Some ''./app.css'')]\<rparr>)) = Some 0
   \<and> loadsFor exampleRuntime ''/app/./app.css''
        (snd (getDesignSystem exampleRuntime ''/app'' (Some ''./app.css'')
          (afterCalls exampleRuntime [(''/other'', None)]
             \<lparr>designSystemCache = [''/app/./app.css'' \<mapsto> 0],
               loadCalls = [(''/app'', Some ''./app.css'')]\<rparr>)))
      = [(''/app'', Some ''./app.css'')]"
proof -
  let ?s = "\<lparr>designSystemCache = Map.empty, loadCalls = []\<rparr>"
  let ?s1 = "\<lparr>designSystemCache = [''/app/./app.css'' \<mapsto> (0::nat)],
               loadCalls = [(''/app'', Some ''./app.css'')]\<rparr>"
  let ?second = "getDesignSystem exampleRuntime ''/app'' (Some ''./app.css'')
          (afterCalls exampleRuntime [(''/other'', None)] ?s1)"
  have key: "cacheKeyOf exampleRuntime ''/app'' (Some ''./app.css'') = ''/app/./app.css''"
    by (simp add: cacheKeyOf_def exampleRuntime_def)
  have first: "getDesignSystem exampleRuntime ''/app'' (Some ''./app.css'') ?s = (Some 0, ?s1)"
    by (simp add: getDesignSystem_def key Let_def)
  have second: "?second = (fst ?second, snd ?second)" by simp
  have none: "designSystemCache ?s (cacheKeyOf exampleRuntime ''/app'' (Some ''./app.css'')) = None"
    by simp
  note inst = getDesignSystem_shares_pending_load [OF first second refl]
  from inst have a: "fst ?second = Some 0" by simp
  from inst none have "loadsFor exampleRuntime (cacheKeyOf exampleRuntime ''/app'' (Some ''./app.css''))
      (snd ?second) = loadsFor exampleRuntime (cacheKeyOf exampleRuntime ''/app'' (Some ''./app.css'')) ?s
        @ [(''/app'', Some ''./app.css'')]" by blast
  then have b: "loadsFor exampleRuntime ''/app/./app.css'' (snd ?second)
      = [(''/app'', Some ''./app.css'')]"
    by (simp add: key loadsFor_def)
  from first a b show ?thesis by simp
qed


section \<open>Properties of the command-line tool\<close>

lemma resolveStep_snoc:
  "foldl (resolveStep rt) st (files @ [p]) = resolveStep rt (foldl (resolveStep rt) st files) p"
  by simp

lemma resolveStep_pair:
  "resolveStep rt (seen, res) p =
     (if isSupportedExtension rt p \<and> p \<notin> seen then (insert p seen, res @ [p]) else (seen, res))"
  by (simp add: resolveStep_def)

lemma resolve_fold:
  "fst (foldl (resolveStep rt) ({}, []) files) = set (snd (foldl (resolveStep rt) ({}, []) files))
   \<and> set (snd (foldl (resolveStep rt) ({}, []) files)) = {p \<in> set files. isSupportedExtension rt p}
   \<and> distinct (snd (foldl (resolveStep rt) ({}, []) files))"
proof (induction files rule: rev_induct)
  case Nil
  show ?case by simp
next
  case (snoc p files)
  obtain seen res where st: "foldl (resolveStep rt) ({}, []) files = (seen, res)"
    by (cases "foldl (resolveStep rt) ({}, []) files")
  with snoc have ih: "seen = set res" "set res = {p \<in> set files. isSupportedExtension rt p}"
    "distinct res" by simp_all
  show ?case
  proof (cases "isSupportedExtension rt p \<and> p \<notin> seen")
    case True
    with st have "foldl (resolveStep rt) ({}, []) (files @ [p]) = (insert p seen, res @ [p])"
      by (simp add: resolveStep_pair)
    with True ih show ?thesis by auto
  next
    case False
    with st have "foldl (resolveStep rt) ({}, []) (files @ [p]) = (seen, res)"
      by (simp add: resolveStep_pair)
    with False ih show ?thesis by auto
  qed
qed

lemma resolveTargetFiles_supported:
  assumes "resolveTargetFiles rt world w tgts rootDir = Inr files"
  shows "\<exists>found. glob world w tgts rootDir = Inr found
           \<and> set files = {p \<in> set found. isSupportedExtension rt p} \<and> distinct files"
  using assms resolve_fold [of rt]
  by (auto simp: resolveTargetFiles_def split: sum.splits)

lemma processFile_result:
  "filePath (fst (processFile rt world w path ds args)) = path
   \<and> status (fst (processFile rt world w path ds args)) \<noteq> Skipped"
  by (simp add: processFile_def failedResult_def Let_def split: sum.split prod.split option.split)

lemma processStep_fold:
  "map filePath (fst (foldl (processStep rt world ds args) (rs, w) files)) = map filePath rs @ files
   \<and> (\<forall>r\<in>set (fst (foldl (processStep rt world ds args) (rs, w) files)).
         r \<in> set rs \<or> status r \<noteq> Skipped)"
proof (induction files arbitrary: rs w)
  case Nil
  show ?case by simp
next
  case (Cons p files)
  obtain r w' where step: "processFile rt world w p ds args = (r, w')" by (cases "processFile rt world w p ds args")
  with processFile_result [of rt world w p ds args]
  have r: "filePath r = p" "status r \<noteq> Skipped" by simp_all
  from step have "processStep rt world ds args (rs, w) p = (rs @ [r], w')"
    by (simp add: processStep_def)
  with Cons.IH [of "rs @ [r]" w'] r show ?case by auto
qed

lemma countStep_fields:
  "changed (countStep acc r) = changed acc + (if status r = Changed then 1 else 0)"
  "unchanged (countStep acc r) = unchanged acc + (if status r = Unchanged then 1 else 0)"
  "skipped (countStep acc r) = skipped acc + (if status r = Skipped then 1 else 0)"
  "errors (countStep acc r) = errors acc + (if status r = Failed then 1 else 0)"
  by (cases "status r"; simp add: countStep_def)+

lemma countStep_fold:
  "changed (foldl countStep acc rs) = changed acc + length (filter (\<lambda>r. status r = Changed) rs)
   \<and> unchanged (foldl countStep acc rs) = unchanged acc + length (filter (\<lambda>r. status r = Unchanged) rs)
   \<and> skipped (foldl countStep acc rs) = skipped acc + length (filter (\<lambda>r. status r = Skipped) rs)
   \<and> errors (foldl countStep acc rs) = errors acc + length (filter (\<lambda>r. status r = Failed) rs)"
proof (induction rs arbitrary: acc)
  case Nil
  show ?case by simp
next
  case (Cons r rs)
  show ?case by (simp add: Cons.IH countStep_fields)
qed

lemma summarizeResults_counts:
  "changed (summarizeResults rs) = length (filter (\<lambda>r. status r = Changed) rs)"
  "unchanged (summarizeResults rs) = length (filter (\<lambda>r. status r = Unchanged) rs)"
  "skipped (summarizeResults rs) = length (filter (\<lambda>r. status r = Skipped) rs)"
  "errors (summarizeResults rs) = length (filter (\<lambda>r. status r = Failed) rs)"
  using countStep_fold [of "\<lparr>changed = 0, unchanged = 0, skipped = 0, errors = 0\<rparr>" rs]
  by (simp_all add: summarizeResults_def)

text \<open>The five ways a run ends, with what each one implies.\<close>

lemma main_cases:
  obtains
    (usage) "helpFlag args \<or> targets args = []"
      "main rt world w args = (Usage (if targets args = [] then EXIT_FAILURE else EXIT_SUCCESS), w)"
  | (globRejected) err where "\<not> helpFlag args" "targets args \<noteq> []"
      "glob world w (targets args) (argRootDir args) = Inl err"
      "main rt world w args = (Rejected err, w)"
  | (noFiles) found where "\<not> helpFlag args" "targets args \<noteq> []"
      "glob world w (targets args) (argRootDir args) = Inr found"
      "\<forall>p\<in>set found. \<not> isSupportedExtension rt p"
      "main rt world w args = (NoMatchingFiles EXIT_FAILURE, w)"
  | (loadRejected) err where "\<not> helpFlag args" "targets args \<noteq> []"
      "main rt world w args = (Rejected err, w)"
  | (unavailable) "\<not> helpFlag args" "targets args \<noteq> []"
      "main rt world w args = (Unavailable EXIT_FAILURE, w)"
  | (completed) files ds results w' where "\<not> helpFlag args" "targets args \<noteq> []"
      "resolveTargetFiles rt world w (targets args) (argRootDir args) = Inr files" "files \<noteq> []"
      "awaitDesignSystem world w (argRootDir args) (cssPath args) = Inr (Some ds)"
      "canonicalizeCandidates ds \<noteq> None"
      "foldl (processStep rt world ds args) ([], w) files = (results, w')"
      "main rt world w args =
         (Completed results (summarizeResults results)
            (if errors (summarizeResults results) > 0 then EXIT_FAILURE else EXIT_SUCCESS), w')"
proof (cases "helpFlag args \<or> targets args = []")
  case True
  then show ?thesis by (intro usage) (auto simp: main_def)
next
  case False
  then have nh: "\<not> helpFlag args" "targets args \<noteq> []" by simp_all
  show ?thesis
  proof (cases "resolveTargetFiles rt world w (targets args) (argRootDir args)")
    case (Inl err)
    then have "glob world w (targets args) (argRootDir args) = Inl err"
      by (auto simp: resolveTargetFiles_def split: sum.splits)
    with nh Inl show ?thesis by (intro globRejected [of err]) (simp_all add: main_def)
  next
    case (Inr files)
    from resolveTargetFiles_supported [OF Inr] obtain found where
      found: "glob world w (targets args) (argRootDir args) = Inr found"
      "set files = {p \<in> set found. isSupportedExtension rt p}" by blast
    show ?thesis
    proof (cases "files = []")
      case True
      with found(2) have "\<forall>p\<in>set found. \<not> isSupportedExtension rt p" by auto
      with nh Inr True found(1) show ?thesis
        by (intro noFiles [of found]) (simp_all add: main_def)
    next
      case ne: False
      show ?thesis
      proof (cases "awaitDesignSystem world w (argRootDir args) (cssPath args)")
        case (Inl err)
        with nh Inr ne show ?thesis by (intro loadRejected [of err]) (simp_all add: main_def)
      next
        case loaded: (Inr dso)
        show ?thesis
        proof (cases dso)
          case None
          with nh Inr ne loaded show ?thesis by (intro unavailable) (simp_all add: main_def)
        next
          case (Some ds)
          show ?thesis
          proof (cases "canonicalizeCandidates ds = None")
            case True
            with nh Inr ne loaded Some show ?thesis
              by (intro unavailable) (simp_all add: main_def)
          next
            case False
            obtain results w' where
              run: "foldl (processStep rt world ds args) ([], w) files = (results, w')"
              by (cases "foldl (processStep rt world ds args) ([], w) files")
            with nh Inr ne loaded Some False show ?thesis
              by (intro completed [of files ds results w']) (simp_all add: main_def Let_def)
          qed
        qed
      qed
    qed
  qed
qed


lemma completed_results:
  assumes "foldl (processStep rt world ds args) ([], w) files = (results, w')"
  shows "map filePath results = files \<and> (\<forall>r\<in>set results. status r \<noteq> Skipped)"
  using processStep_fold [of rt world ds args "[]" w files] assms by simp

lemma main_results:
  "(\<forall>r\<in>set (fileResults (fst (main rt world w args))).
      isSupportedExtension rt (filePath r) \<and> status r \<noteq> Skipped)"
proof (cases rule: main_cases [of args rt world w])
  case (completed files ds results w')
  from resolveTargetFiles_supported [OF completed(3)]
  have sup: "\<forall>p\<in>set files. isSupportedExtension rt p" by auto
  from completed_results [OF completed(7)]
  have "map filePath results = files" "\<forall>r\<in>set results. status r \<noteq> Skipped" by simp_all
  with sup have "\<forall>r\<in>set results. isSupportedExtension rt (filePath r) \<and> status r \<noteq> Skipped"
    by (metis image_eqI list.set_map)
  with completed(8) show ?thesis by (simp add: fileResults_def)
qed (simp_all add: fileResults_def)

lemma main_completed:
  assumes "fst (main rt world w args) = Completed results summary c"
  shows "summary = summarizeResults results
         \<and> c = (if errors summary = 0 then EXIT_SUCCESS else EXIT_FAILURE)
         \<and> results \<noteq> [] \<and> \<not> helpFlag args \<and> targets args \<noteq> []"
proof (cases rule: main_cases [of args rt world w])
  case (completed files ds rs w')
  from completed_results [OF completed(7)] completed(4) have "rs \<noteq> []" by auto
  with completed assms show ?thesis by auto
qed (use assms in simp_all)

text \<open>
  C8, as the code has it. A file whose extension is not supported never reaches the
  per-file loop: \<open>resolveTargetFiles\<close> keeps the supported files that \<open>glob\<close> found, each
  once, so every per-file result of a run is for a file with a supported extension, none
  has the status \<open>skipped\<close> (nor \<open>error\<close>, for an unsupported file, which has no result
  at all), and the \<open>skipped\<close> count of a completed run is \<open>0\<close>. When none of the files
  found is supported, the run stops with \<open>No matching files found\<close> and \<open>EXIT_FAILURE\<close>.
\<close>

theorem unsupported_target_has_no_result:
  "(\<forall>r\<in>set (fileResults (fst (main rt world w args))).
      isSupportedExtension rt (filePath r) \<and> status r \<noteq> Skipped)
   \<and> (\<not> isSupportedExtension rt path \<longrightarrow>
        path \<notin> filePath ` set (fileResults (fst (main rt world w args))))
   \<and> (fst (main rt world w args) = Completed results summary c \<longrightarrow>
        skipped summary = 0 \<and> summary = summarizeResults results)
   \<and> (resolveTargetFiles rt world w tgts rootDir = Inr files \<longrightarrow>
        (\<exists>found. glob world w tgts rootDir = Inr found
           \<and> set files = {p \<in> set found. isSupportedExtension rt p} \<and> distinct files))
   \<and> (\<not> helpFlag args \<and> targets args \<noteq> []
        \<and> glob world w (targets args) (argRootDir args) = Inr found
        \<and> (\<forall>p\<in>set found. \<not> isSupportedExtension rt p) \<longrightarrow>
        main rt world w args = (NoMatchingFiles EXIT_FAILURE, w))"
proof (intro conjI)
  show all: "\<forall>r\<in>set (fileResults (fst (main rt world w args))).
      isSupportedExtension rt (filePath r) \<and> status r \<noteq> Skipped"
    by (rule main_results)
  show "\<not> isSupportedExtension rt path \<longrightarrow>
        path \<notin> filePath ` set (fileResults (fst (main rt world w args)))"
  proof (intro impI notI)
    assume no: "\<not> isSupportedExtension rt path"
      and "path \<in> filePath ` set (fileResults (fst (main rt world w args)))"
    then obtain r where "r \<in> set (fileResults (fst (main rt world w args)))" "filePath r = path"
      by (elim imageE) simp
    with all no show False by blast
  qed
  show "fst (main rt world w args) = Completed results summary c \<longrightarrow>
        skipped summary = 0 \<and> summary = summarizeResults results"
  proof
    assume fin: "fst (main rt world w args) = Completed results summary c"
    with all have "\<forall>r\<in>set results. status r \<noteq> Skipped" by (simp add: fileResults_def)
    then have "filter (\<lambda>r. status r = Skipped) results = []" by (simp add: filter_empty_conv)
    with main_completed [OF fin]
    show "skipped summary = 0 \<and> summary = summarizeResults results"
      by (simp add: summarizeResults_counts)
  qed
  show "resolveTargetFiles rt world w tgts rootDir = Inr files \<longrightarrow>
        (\<exists>found. glob world w tgts rootDir = Inr found
           \<and> set files = {p \<in> set found. isSupportedExtension rt p} \<and> distinct files)"
    by (intro impI) (rule resolveTargetFiles_supported)
  show "\<not> helpFlag args \<and> targets args \<noteq> []
        \<and> glob world w (targets args) (argRootDir args) = Inr found
        \<and> (\<forall>p\<in>set found. \<not> isSupportedExtension rt p) \<longrightarrow>
        main rt world w args = (NoMatchingFiles EXIT_FAILURE, w)"
  proof (intro impI, elim conjE)
    assume h: "\<not> helpFlag args" "targets args \<noteq> []"
      "glob world w (targets args) (argRootDir args) = Inr found"
      "\<forall>p\<in>set found. \<not> isSupportedExtension rt p"
    obtain files where f: "resolveTargetFiles rt world w (targets args) (argRootDir args) = Inr files"
      using h(3) by (simp add: resolveTargetFiles_def)
    from resolveTargetFiles_supported [OF f] h(3)
    have "set files = {p \<in> set found. isSupportedExtension rt p}" by simp
    with h(4) have "set files = {}" by simp
    then have "files = []" by simp
    with h(1,2) f show "main rt world w args = (NoMatchingFiles EXIT_FAILURE, w)"
      by (simp add: main_def)
  qed
qed

text \<open>
  C9, as the code has it. A run that reaches the summary exits with \<open>EXIT_SUCCESS\<close>
  exactly when the count of errors is \<open>0\<close>, whatever the other counts are; a run that
  stops before the per-file loop exits with \<open>EXIT_FAILURE\<close>, except for a request for
  help that names targets, which exits with \<open>EXIT_SUCCESS\<close>. So the exit status is
  success exactly for a completed run without errors and for such a request for help.
\<close>

theorem exit_status_reflects_errors:
  "(fst (main rt world w args) = Completed results summary c \<longrightarrow>
      (c = EXIT_SUCCESS \<longleftrightarrow> errors summary = 0)
      \<and> c = (if errors summary = 0 then EXIT_SUCCESS else EXIT_FAILURE)
      \<and> summary = summarizeResults results
      \<and> errors summary = length (filter (\<lambda>r. status r = Failed) results))
   \<and> (fst (main rt world w args) = NoMatchingFiles c \<or> fst (main rt world w args) = Unavailable c
        \<longrightarrow> c = EXIT_FAILURE)
   \<and> (fst (main rt world w args) = Usage c \<longrightarrow>
        c = (if targets args = [] then EXIT_FAILURE else EXIT_SUCCESS))
   \<and> (exitStatus (fst (main rt world w args)) = Some EXIT_SUCCESS \<longleftrightarrow>
        (helpFlag args \<and> targets args \<noteq> [])
        \<or> (\<exists>rs. fst (main rt world w args) = Completed rs (summarizeResults rs) EXIT_SUCCESS
                \<and> errors (summarizeResults rs) = 0))"
proof (intro conjI)
  show "fst (main rt world w args) = Completed results summary c \<longrightarrow>
      (c = EXIT_SUCCESS \<longleftrightarrow> errors summary = 0)
      \<and> c = (if errors summary = 0 then EXIT_SUCCESS else EXIT_FAILURE)
      \<and> summary = summarizeResults results
      \<and> errors summary = length (filter (\<lambda>r. status r = Failed) results)"
  proof
    assume "fst (main rt world w args) = Completed results summary c"
    from main_completed [OF this]
    show "(c = EXIT_SUCCESS \<longleftrightarrow> errors summary = 0)
      \<and> c = (if errors summary = 0 then EXIT_SUCCESS else EXIT_FAILURE)
      \<and> summary = summarizeResults results
      \<and> errors summary = length (filter (\<lambda>r. status r = Failed) results)"
      by (simp add: summarizeResults_counts EXIT_SUCCESS_def EXIT_FAILURE_def)
  qed
  show "fst (main rt world w args) = NoMatchingFiles c \<or> fst (main rt world w args) = Unavailable c
        \<longrightarrow> c = EXIT_FAILURE"
    by (cases rule: main_cases [of args rt world w]) auto
  show "fst (main rt world w args) = Usage c \<longrightarrow>
        c = (if targets args = [] then EXIT_FAILURE else EXIT_SUCCESS)"
    by (cases rule: main_cases [of args rt world w]) auto
  show "exitStatus (fst (main rt world w args)) = Some EXIT_SUCCESS \<longleftrightarrow>
        (helpFlag args \<and> targets args \<noteq> [])
        \<or> (\<exists>rs. fst (main rt world w args) = Completed rs (summarizeResults rs) EXIT_SUCCESS
                \<and> errors (summarizeResults rs) = 0)"
    by (cases rule: main_cases [of args rt world w])
      (auto simp: exitStatus_def EXIT_SUCCESS_def EXIT_FAILURE_def)
qed


lemma example_supported:
  "isSupportedExtension exampleRuntime ''/app/b.html''"
  "\<not> isSupportedExtension exampleRuntime ''/app/a.png''"
  "isSupportedExtension exampleRuntime ''/app/missing.html''"
  by (simp_all add: isSupportedExtension_def exampleRuntime_def extnameOf_def baseName_def
        lowerChar_def SUPPORTED_EXTENSIONS_def)

lemma example_canonical_unchanged:
  "canonicalizeDocument exampleRuntime ''mt-4'' ''/app/b.html'' spacingDesignSystem ''/app''
     \<lparr>optRootFontSize = Some 16\<rparr> = Inr ''mt-4''"
proof -
  have l: "inferLanguageId exampleRuntime ''/app/b.html'' = Some ''html''"
    by (simp add: inferLanguageId_def exampleRuntime_def extnameOf_def baseName_def lowerChar_def)
  have "diagnosticsFor exampleRuntime ''mt-4'' ''/app/b.html'' spacingDesignSystem ''/app''
         \<lparr>optRootFontSize = Some 16\<rparr> ''html'' = Inr []"
    by (simp add: diagnosticsFor_def exampleRuntime_def scriptedAnalyzer_def
          exampleAnswers_def createLanguageServiceState_def createTextDocument_def)
  then have "editsFor exampleRuntime ''mt-4'' ''/app/b.html'' spacingDesignSystem ''/app''
         \<lparr>optRootFontSize = Some 16\<rparr> ''html'' = Inr []"
    by (simp add: editsFor_diagnosticsFor dedupeEdits_Nil rawEdits_def)
  with l show ?thesis by (simp add: canonicalizeDocument_supported)
qed

lemma example_resolve:
  "resolveTargetFiles exampleRuntime (exampleWorld ds)
     [(''/app/a.png'', ''mt-[16px]''), (''/app/b.html'', ''mt-4'')]
     [''/app/a.png'', ''/app/b.html''] ''/app'' = Inr [''/app/b.html'']"
  "resolveTargetFiles exampleRuntime (exampleWorld ds) [(''/app/a.png'', ''mt-[16px]'')]
     [''/app/a.png''] ''/app'' = Inr []"
  "resolveTargetFiles exampleRuntime (exampleWorld ds) [] [''/app/missing.html''] ''/app'' = Inr []"
  by (simp_all add: resolveTargetFiles_def exampleWorld_def resolveStep_pair example_supported)

lemma example_run_png:
  "main exampleRuntime (exampleWorld spacingDesignSystem)
     [(''/app/a.png'', ''mt-[16px]''), (''/app/b.html'', ''mt-4'')]
     (exampleArgs [''/app/a.png'', ''/app/b.html''])
   = (Completed
        [\<lparr>filePath = ''/app/b.html'', status = Unchanged, editCount = 0, message = None\<rparr>]
        \<lparr>changed = 0, unchanged = 1, skipped = 0, errors = 0\<rparr> 0,
      [(''/app/a.png'', ''mt-[16px]''), (''/app/b.html'', ''mt-4'')])"
proof -
  let ?w = "[(''/app/a.png'', ''mt-[16px]''), (''/app/b.html'', ''mt-4'')]"
  have p: "processFile exampleRuntime (exampleWorld spacingDesignSystem) ?w ''/app/b.html''
      spacingDesignSystem (exampleArgs [''/app/a.png'', ''/app/b.html''])
    = (\<lparr>filePath = ''/app/b.html'', status = Unchanged, editCount = 0, message = None\<rparr>, ?w)"
    by (simp add: processFile_def exampleWorld_def exampleArgs_def example_canonical_unchanged)
  have a: "awaitDesignSystem (exampleWorld spacingDesignSystem) ?w ''/app'' None
      = Inr (Some spacingDesignSystem)"
    "canonicalizeCandidates spacingDesignSystem \<noteq> None"
    by (simp_all add: exampleWorld_def spacingDesignSystem_def)
  have args: "targets (exampleArgs [''/app/a.png'', ''/app/b.html'']) = [''/app/a.png'', ''/app/b.html'']"
    "argRootDir (exampleArgs [''/app/a.png'', ''/app/b.html'']) = ''/app''"
    "cssPath (exampleArgs [''/app/a.png'', ''/app/b.html'']) = None"
    "\<not> helpFlag (exampleArgs [''/app/a.png'', ''/app/b.html''])"
    by (simp_all add: exampleArgs_def)
  show ?thesis
    by (simp add: main_def args example_resolve a processStep_def p summarizeResults_def
          countStep_def EXIT_SUCCESS_def)
qed

lemma example_run_only_png:
  "main exampleRuntime (exampleWorld spacingDesignSystem) [(''/app/a.png'', ''mt-[16px]'')]
     (exampleArgs [''/app/a.png''])
   = (NoMatchingFiles 1, [(''/app/a.png'', ''mt-[16px]'')])"
  by (simp add: main_def exampleArgs_def example_resolve EXIT_FAILURE_def)

lemma example_run_no_match:
  "main exampleRuntime (exampleWorld spacingDesignSystem) [] (exampleArgs [''/app/missing.html''])
   = (NoMatchingFiles 1, [])"
  by (simp add: main_def exampleArgs_def example_resolve EXIT_FAILURE_def)


lemma example_run_unreadable:
  "main exampleRuntime
     ((exampleWorld spacingDesignSystem)\<lparr>readFile := (\<lambda>w p. Inl ''EACCES'')\<rparr>)
     [(''/app/a.png'', ''mt-[16px]''), (''/app/b.html'', ''mt-4'')]
     (exampleArgs [''/app/a.png'', ''/app/b.html''])
   = (Completed
        [\<lparr>filePath = ''/app/b.html'', status = Failed, editCount = 0, message = Some ''EACCES''\<rparr>]
        \<lparr>changed = 0, unchanged = 0, skipped = 0, errors = 1\<rparr> 1,
      [(''/app/a.png'', ''mt-[16px]''), (''/app/b.html'', ''mt-4'')])"
proof -
  let ?w = "[(''/app/a.png'', ''mt-[16px]''), (''/app/b.html'', ''mt-4'')]"
  let ?world = "(exampleWorld spacingDesignSystem)\<lparr>readFile := (\<lambda>w p. Inl ''EACCES'')\<rparr>"
  have r: "resolveTargetFiles exampleRuntime ?world ?w [''/app/a.png'', ''/app/b.html''] ''/app''
      = Inr [''/app/b.html'']"
    by (simp add: resolveTargetFiles_def exampleWorld_def resolveStep_pair example_supported)
  have p: "processFile exampleRuntime ?world ?w ''/app/b.html''
      spacingDesignSystem (exampleArgs [''/app/a.png'', ''/app/b.html''])
    = (\<lparr>filePath = ''/app/b.html'', status = Failed, editCount = 0, message = Some ''EACCES''\<rparr>, ?w)"
    by (simp add: processFile_def failedResult_def)
  have a: "awaitDesignSystem (exampleWorld spacingDesignSystem) ?w ''/app'' None
      = Inr (Some spacingDesignSystem)"
    "canonicalizeCandidates spacingDesignSystem \<noteq> None"
    by (simp_all add: exampleWorld_def spacingDesignSystem_def)
  have args: "targets (exampleArgs [''/app/a.png'', ''/app/b.html'']) = [''/app/a.png'', ''/app/b.html'']"
    "argRootDir (exampleArgs [''/app/a.png'', ''/app/b.html'']) = ''/app''"
    "cssPath (exampleArgs [''/app/a.png'', ''/app/b.html'']) = None"
    "\<not> helpFlag (exampleArgs [''/app/a.png'', ''/app/b.html''])"
    by (simp_all add: exampleArgs_def)
  show ?thesis
    by (simp add: main_def args r a processStep_def p summarizeResults_def
          countStep_def EXIT_FAILURE_def)
qed

text \<open>
  The specification has an unsupported target reported as \<open>skipped\<close>. It is not: with
  \<open>/app/a.png\<close> and \<open>/app/b.html\<close> as targets, the run has one result, for
  \<open>/app/b.html\<close>, and a \<open>skipped\<close> count of \<open>0\<close>; with \<open>/app/a.png\<close> alone it ends with
  \<open>No matching files found\<close> and exit code \<open>1\<close>.
\<close>

theorem unsupported_target_reported_as_skipped_counterexample:
  "\<not> isSupportedExtension exampleRuntime ''/app/a.png''
   \<and> fst (main exampleRuntime (exampleWorld spacingDesignSystem)
          [(''/app/a.png'', ''mt-[16px]''), (''/app/b.html'', ''mt-4'')]
          (exampleArgs [''/app/a.png'', ''/app/b.html'']))
       = Completed
           [\<lparr>filePath = ''/app/b.html'', status = Unchanged, editCount = 0, message = None\<rparr>]
           \<lparr>changed = 0, unchanged = 1, skipped = 0, errors = 0\<rparr> 0
   \<and> fst (main exampleRuntime (exampleWorld spacingDesignSystem) [(''/app/a.png'', ''mt-[16px]'')]
          (exampleArgs [''/app/a.png'']))
       = NoMatchingFiles 1"
  by (simp add: example_supported example_run_png example_run_only_png)

theorem unsupported_target_has_no_result_witness:
  "\<not> isSupportedExtension exampleRuntime ''/app/a.png''
   \<and> ''/app/a.png'' \<notin> filePath ` set (fileResults (fst
         (main exampleRuntime (exampleWorld spacingDesignSystem)
            [(''/app/a.png'', ''mt-[16px]''), (''/app/b.html'', ''mt-4'')]
            (exampleArgs [''/app/a.png'', ''/app/b.html'']))))
   \<and> skipped \<lparr>changed = 0, unchanged = 1, skipped = 0, errors = 0\<rparr> = 0
   \<and> glob (exampleWorld spacingDesignSystem) [(''/app/a.png'', ''mt-[16px]'')]
         (targets (exampleArgs [''/app/a.png''])) (argRootDir (exampleArgs [''/app/a.png'']))
       = Inr [''/app/a.png'']
   \<and> main exampleRuntime (exampleWorld spacingDesignSystem) [(''/app/a.png'', ''mt-[16px]'')]
         (exampleArgs [''/app/a.png''])
       = (NoMatchingFiles EXIT_FAILURE, [(''/app/a.png'', ''mt-[16px]'')])"
proof -
  let ?world = "exampleWorld spacingDesignSystem"
  let ?w2 = "[(''/app/a.png'', ''mt-[16px]''), (''/app/b.html'', ''mt-4'')]"
  let ?w1 = "[(''/app/a.png'', ''mt-[16px]'')]"
  note two = unsupported_target_has_no_result [of exampleRuntime ?world ?w2
      "exampleArgs [''/app/a.png'', ''/app/b.html'']" "''/app/a.png''"
      "[\<lparr>filePath = ''/app/b.html'', status = Unchanged, editCount = 0, message = None\<rparr>]"
      "\<lparr>changed = 0, unchanged = 1, skipped = 0, errors = 0\<rparr>" 0]
  note one = unsupported_target_has_no_result [of exampleRuntime ?world ?w1
      "exampleArgs [''/app/a.png'']" "''/app/a.png''" _ _ _ _ _ _ "[''/app/a.png'']"]
  have g: "glob ?world ?w1 (targets (exampleArgs [''/app/a.png'']))
      (argRootDir (exampleArgs [''/app/a.png''])) = Inr [''/app/a.png'']"
    by (simp add: exampleWorld_def exampleArgs_def)
  have h: "\<not> helpFlag (exampleArgs [''/app/a.png''])" "targets (exampleArgs [''/app/a.png'']) \<noteq> []"
    by (simp_all add: exampleArgs_def)
  have u: "\<forall>p\<in>set [''/app/a.png'']. \<not> isSupportedExtension exampleRuntime p"
    by (simp add: example_supported)
  from two example_supported(2)
  have a: "''/app/a.png'' \<notin> filePath ` set (fileResults (fst
         (main exampleRuntime ?world ?w2 (exampleArgs [''/app/a.png'', ''/app/b.html'']))))"
    by blast
  have run: "fst (main exampleRuntime ?world ?w2 (exampleArgs [''/app/a.png'', ''/app/b.html'']))
      = Completed
          [\<lparr>filePath = ''/app/b.html'', status = Unchanged, editCount = 0, message = None\<rparr>]
          \<lparr>changed = 0, unchanged = 1, skipped = 0, errors = 0\<rparr> 0"
    by (simp add: example_run_png)
  from two run
  have b: "skipped \<lparr>changed = 0, unchanged = 1, skipped = 0, errors = 0\<rparr> = 0" by blast
  from one h g u
  have c: "main exampleRuntime ?world ?w1 (exampleArgs [''/app/a.png''])
      = (NoMatchingFiles EXIT_FAILURE, ?w1)" by blast
  from example_supported(2) a b g c show ?thesis by simp
qed

text \<open>
  The specification has every run without errors exit with success. A run whose targets
  match no file has no failed file, and exits with \<open>EXIT_FAILURE\<close>.
\<close>

theorem exit_status_without_errors_counterexample:
  "fst (main exampleRuntime (exampleWorld spacingDesignSystem) []
          (exampleArgs [''/app/missing.html'']))
     = NoMatchingFiles EXIT_FAILURE
   \<and> exitStatus (fst (main exampleRuntime (exampleWorld spacingDesignSystem) []
          (exampleArgs [''/app/missing.html''])))
     = Some EXIT_FAILURE
   \<and> errors (summarizeResults (fileResults (fst
          (main exampleRuntime (exampleWorld spacingDesignSystem) []
             (exampleArgs [''/app/missing.html''])))))
     = 0
   \<and> EXIT_FAILURE \<noteq> EXIT_SUCCESS"
  by (simp add: example_run_no_match exitStatus_def fileResults_def summarizeResults_def
        EXIT_FAILURE_def EXIT_SUCCESS_def)

theorem exit_status_reflects_errors_witness:
  "fst (main exampleRuntime (exampleWorld spacingDesignSystem)
          [(''/app/a.png'', ''mt-[16px]''), (''/app/b.html'', ''mt-4'')]
          (exampleArgs [''/app/a.png'', ''/app/b.html'']))
     = Completed
         [\<lparr>filePath = ''/app/b.html'', status = Unchanged, editCount = 0, message = None\<rparr>]
         \<lparr>changed = 0, unchanged = 1, skipped = 0, errors = 0\<rparr> 0
   \<and> (0::nat) = EXIT_SUCCESS
   \<and> errors \<lparr>changed = 0, unchanged = 1, skipped = 0, errors = 0\<rparr> = 0
   \<and> fst (main exampleRuntime
          ((exampleWorld spacingDesignSystem)\<lparr>readFile := (\<lambda>w p. Inl ''EACCES'')\<rparr>)
          [(''/app/a.png'', ''mt-[16px]''), (''/app/b.html'', ''mt-4'')]
          (exampleArgs [''/app/a.png'', ''/app/b.html'']))
     = Completed
         [\<lparr>filePath = ''/app/b.html'', status = Failed, editCount = 0, message = Some ''EACCES''\<rparr>]
         \<lparr>changed = 0, unchanged = 0, skipped = 0, errors = 1\<rparr> 1
   \<and> (1::nat) \<noteq> EXIT_SUCCESS
   \<and> errors \<lparr>changed = 0, unchanged = 0, skipped = 0, errors = 1\<rparr> = 1
   \<and> fst (main exampleRuntime (exampleWorld spacingDesignSystem) []
          (exampleArgs [''/app/missing.html'']))
     = NoMatchingFiles EXIT_FAILURE"
proof -
  let ?w = "[(''/app/a.png'', ''mt-[16px]''), (''/app/b.html'', ''mt-4'')]"
  let ?args = "exampleArgs [''/app/a.png'', ''/app/b.html'']"
  let ?bad = "(exampleWorld spacingDesignSystem)\<lparr>readFile := (\<lambda>w p. Inl ''EACCES'')\<rparr>"
  note ok = exit_status_reflects_errors [of exampleRuntime "exampleWorld spacingDesignSystem" ?w ?args
      "[\<lparr>filePath = ''/app/b.html'', status = Unchanged, editCount = 0, message = None\<rparr>]"
      "\<lparr>changed = 0, unchanged = 1, skipped = 0, errors = 0\<rparr>" 0]
  note bad = exit_status_reflects_errors [of exampleRuntime ?bad ?w ?args
      "[\<lparr>filePath = ''/app/b.html'', status = Failed, editCount = 0, message = Some ''EACCES''\<rparr>]"
      "\<lparr>changed = 0, unchanged = 0, skipped = 0, errors = 1\<rparr>" 1]
  note none = exit_status_reflects_errors [of exampleRuntime "exampleWorld spacingDesignSystem" "[]"
      "exampleArgs [''/app/missing.html'']" _ _ 1]
  from ok example_run_png have a: "(0::nat) = EXIT_SUCCESS" by simp
  from bad example_run_unreadable have b: "(1::nat) \<noteq> EXIT_SUCCESS" by simp
  from none example_run_no_match have c: "(1::nat) = EXIT_FAILURE" by simp
  from a b c example_run_png example_run_unreadable example_run_no_match show ?thesis by simp
qed


section \<open>Running the pipeline twice\<close>










end
